theory Spec2Isabelle
  imports Complex_Main "HOL-Library.Multiset"
begin

section \<open>Data model (src/types.ts)\<close>

text \<open>
  JavaScript strings are sequences of UTF-16 code units; a string is modelled as the list
  of its code units, so that the whitespace classes of \<^verbatim>\<open>trim\<close> and of the regular
  expression class \<^verbatim>\<open>\s\<close> (which reach beyond one byte) can be written as they are.
  JavaScript numbers are modelled as reals: the model covers finite numbers (no NaN, no
  infinities) with exact arithmetic, except in the subtitle interchange format, where the
  rounding of doubles is a parameter.
\<close>

type_synonym js_string = "nat list"

definition js :: "string \<Rightarrow> js_string" where
  "js s = map of_char s"

record SubtitleEntry =
  sub_id :: js_string
  startTime :: real
  endTime :: real
  originalText :: js_string
  translatedText :: js_string
  audioUrl :: "js_string option"

record BlurRegion =
  region_x :: real
  region_y :: real
  region_width :: real
  region_height :: real

datatype ProcessStatus = IDLE | EXTRACTING | TRANSLATING | GENERATING_VOICE | EXPORTING | COMPLETED | ERROR

text \<open>
  The history code of \<^verbatim>\<open>App.tsx\<close> never looks inside a subtitle or a region, except
  through \<^verbatim>\<open>JSON.stringify\<close>. The records are therefore polymorphic in the element
  types: \<open>'s\<close> is \<^typ>\<open>SubtitleEntry\<close> and \<open>'r\<close> is \<^typ>\<open>BlurRegion\<close> when arrays are
  read as values, and both are object addresses when the sharing of element objects
  matters.
\<close>

record ('s, 'r) HistoryState =
  hs_subtitles :: "'s list"
  hs_blurRegions :: "'r list"

record ('s, 'r) VideoQueueItem =
  status :: ProcessStatus
  subtitles :: "'s list"
  blurRegions :: "'r list"
  fontFamily :: js_string
  fontSize :: real
  history :: "('s, 'r) HistoryState list"
  historyIndex :: nat

text \<open>\<^verbatim>\<open>Partial<VideoQueueItem>\<close>, for the fields that callers of \<^verbatim>\<open>updateActiveVideo\<close> pass.\<close>

record ('s, 'r) Updates =
  u_status :: "ProcessStatus option"
  u_subtitles :: "'s list option"
  u_blurRegions :: "'r list option"
  u_fontFamily :: "js_string option"
  u_fontSize :: "real option"



section \<open>Builtins of the host\<close>

text \<open>
  \<^verbatim>\<open>Number.prototype.toString\<close> on a non-negative integer below \<open>10^21\<close>: its decimal
  digits, most significant first, as code units (\<open>48\<close> is the digit zero).
\<close>

function nat_toString :: "nat \<Rightarrow> js_string" where
  "nat_toString n = (if n < 10 then [48 + n] else nat_toString (n div 10) @ [48 + n mod 10])"
  by pat_completeness auto
termination
  by (relation "measure (\<lambda>n. n)") auto

declare nat_toString.simps [simp del]




text \<open>
  White space as \<^verbatim>\<open>String.prototype.trim\<close> and the class \<^verbatim>\<open>\s\<close> of regular expressions
  take it: TAB, LF, VT, FF, CR, SP, NBSP, U+1680, U+2000 to U+200A, U+2028, U+2029,
  U+202F, U+205F, U+3000 and U+FEFF. The class \<^verbatim>\<open>\d\<close> is the ten ASCII digits.
\<close>

definition is_space :: "nat \<Rightarrow> bool" where
  "is_space c \<longleftrightarrow>
     c \<in> {9, 10, 11, 12, 13, 32, 160, 5760, 8232, 8233, 8239, 8287, 12288, 65279}
     \<or> (8192 \<le> c \<and> c \<le> 8202)"

definition is_digit :: "nat \<Rightarrow> bool" where
  "is_digit c \<longleftrightarrow> 48 \<le> c \<and> c \<le> 57"

definition trim :: "js_string \<Rightarrow> js_string" where
  "trim s = rev (dropWhile is_space (rev (dropWhile is_space s)))"

text \<open>
  \<^verbatim>\<open>String.prototype.split\<close> with a one-character separator, and
  \<^verbatim>\<open>Array.prototype.join\<close>. A split always returns at least one piece;
  \<open>cons_first\<close> puts a character in front of the first piece.
\<close>

fun cons_first :: "nat \<Rightarrow> js_string list \<Rightarrow> js_string list" where
  "cons_first c [] = [[c]]"
| "cons_first c (p # ps) = (c # p) # ps"

fun split_on :: "nat \<Rightarrow> js_string \<Rightarrow> js_string list" where
  "split_on sep [] = [[]]"
| "split_on sep (c # cs) =
     (if c = sep then [] # split_on sep cs else cons_first c (split_on sep cs))"

fun js_join :: "js_string \<Rightarrow> js_string list \<Rightarrow> js_string" where
  "js_join sep [] = []"
| "js_join sep [x] = x"
| "js_join sep (x # y # ys) = x @ sep @ js_join sep (y # ys)"

text \<open>
  \<^verbatim>\<open>Number(s)\<close> on a non-empty string of ASCII digits is its decimal value. Every other
  string is \<^const>\<open>None\<close> here: the result is NaN, or the string is a numeric literal of
  another form, which this model does not read.
\<close>

definition js_Number :: "js_string \<Rightarrow> real option" where
  "js_Number s =
     (if s \<noteq> [] \<and> list_all is_digit s
      then Some (of_nat (foldl (\<lambda>a c. 10 * a + (c - 48)) 0 s)) else None)"

section \<open>History manager (src/App.tsx)\<close>

text \<open>The item that \<^verbatim>\<open>handleFilesUpload\<close> enqueues: one snapshot of the empty pair, cursor 0.\<close>

definition newItem :: "js_string \<Rightarrow> real \<Rightarrow> ('s, 'r) VideoQueueItem" where
  "newItem globalFontFamily globalFontSize =
     \<lparr>status = IDLE, subtitles = [], blurRegions = [],
      fontFamily = globalFontFamily, fontSize = globalFontSize,
      history = [\<lparr>hs_subtitles = [], hs_blurRegions = []\<rparr>], historyIndex = 0\<rparr>"

text \<open>
  \<^verbatim>\<open>pushToHistory\<close> (lines 64-77), on the item at the given index of the queue.
  \<^verbatim>\<open>slice(0, n)\<close> is \<^const>\<open>take\<close>, \<^verbatim>\<open>shift()\<close> is \<^const>\<open>tl\<close>; the spread
  \<^verbatim>\<open>[...subtitles]\<close> builds a new array of the same elements.
\<close>

definition pushToHistory ::
  "'s list \<Rightarrow> 'r list \<Rightarrow> ('s, 'r) VideoQueueItem \<Rightarrow> ('s, 'r) VideoQueueItem" where
  "pushToHistory subs regs item =
     (let newState = \<lparr>hs_subtitles = subs, hs_blurRegions = regs\<rparr>;
          sliced = take (historyIndex item + 1) (history item);
          newHistory = (if length sliced \<ge> 50 then tl sliced else sliced)
      in item\<lparr>history := newHistory @ [newState], historyIndex := length newHistory\<rparr>)"

text \<open>
  \<^verbatim>\<open>updateActiveVideo\<close> (lines 115-135), on the active item. \<^verbatim>\<open>JSON.stringify\<close> is a
  builtin of the host; it is a parameter of the model, one function for subtitle arrays and
  one for region arrays. An array is truthy even when empty, so \<^verbatim>\<open>updates.subtitles || x\<close>
  is \<^verbatim>\<open>updates.subtitles\<close> whenever the key is present.
\<close>

definition updateActiveVideo ::
  "('s list \<Rightarrow> 'j) \<Rightarrow> ('r list \<Rightarrow> 'j) \<Rightarrow> ('s, 'r) Updates \<Rightarrow>
   ('s, 'r) VideoQueueItem \<Rightarrow> ('s, 'r) VideoQueueItem" where
  "updateActiveVideo stringifyS stringifyR updates item =
     (let newItem = item
            \<lparr>status := (case u_status updates of Some v \<Rightarrow> v | None \<Rightarrow> status item),
             subtitles := (case u_subtitles updates of Some v \<Rightarrow> v | None \<Rightarrow> subtitles item),
             blurRegions := (case u_blurRegions updates of Some v \<Rightarrow> v | None \<Rightarrow> blurRegions item),
             fontFamily := (case u_fontFamily updates of Some v \<Rightarrow> v | None \<Rightarrow> fontFamily item),
             fontSize := (case u_fontSize updates of Some v \<Rightarrow> v | None \<Rightarrow> fontSize item)\<rparr>
      in if u_subtitles updates \<noteq> None \<or> u_blurRegions updates \<noteq> None then
           (let subs = (case u_subtitles updates of Some v \<Rightarrow> v | None \<Rightarrow> subtitles item);
                regs = (case u_blurRegions updates of Some v \<Rightarrow> v | None \<Rightarrow> blurRegions item)
            in if stringifyS subs \<noteq> stringifyS (subtitles item)
                  \<or> stringifyR regs \<noteq> stringifyR (blurRegions item) then
                 (let newState = \<lparr>hs_subtitles = subs, hs_blurRegions = regs\<rparr>;
                      sliced = take (historyIndex item + 1) (history item);
                      newHistory = (if length sliced \<ge> 50 then tl sliced else sliced)
                  in newItem\<lparr>history := newHistory @ [newState],
                              historyIndex := length newHistory\<rparr>)
               else newItem)
         else newItem)"

text \<open>
  \<^verbatim>\<open>undo\<close> and \<^verbatim>\<open>redo\<close> (lines 79-97). Reading \<^verbatim>\<open>item.history[newIdx]\<close> out of range
  gives \<^verbatim>\<open>undefined\<close>, and \<^verbatim>\<open>state.subtitles\<close> then throws a TypeError.
\<close>

datatype js_error = TypeError

definition undo :: "('s, 'r) VideoQueueItem \<Rightarrow> js_error + ('s, 'r) VideoQueueItem" where
  "undo item =
     (if historyIndex item \<le> 0 then Inr item
      else (let newIdx = historyIndex item - 1
            in if newIdx < length (history item) then
                 (let state = history item ! newIdx
                  in Inr (item\<lparr>historyIndex := newIdx, subtitles := hs_subtitles state,
                              blurRegions := hs_blurRegions state\<rparr>))
               else Inl TypeError))"

definition redo :: "('s, 'r) VideoQueueItem \<Rightarrow> js_error + ('s, 'r) VideoQueueItem" where
  "redo item =
     (if int (historyIndex item) \<ge> int (length (history item)) - 1 then Inr item
      else (let newIdx = historyIndex item + 1
            in if newIdx < length (history item) then
                 (let state = history item ! newIdx
                  in Inr (item\<lparr>historyIndex := newIdx, subtitles := hs_subtitles state,
                              blurRegions := hs_blurRegions state\<rparr>))
               else Inl TypeError))"

text \<open>Sessions: any interleaving of the four operations on one item.\<close>

datatype ('s, 'r) action =
    Update "('s, 'r) Updates"
  | Push "'s list" "'r list"
  | Undo
  | Redo

fun step ::
  "('s list \<Rightarrow> 'j) \<Rightarrow> ('r list \<Rightarrow> 'j) \<Rightarrow> ('s, 'r) action \<Rightarrow>
   ('s, 'r) VideoQueueItem \<Rightarrow> js_error + ('s, 'r) VideoQueueItem" where
  "step strS strR (Update u) item = Inr (updateActiveVideo strS strR u item)"
| "step strS strR (Push subs regs) item = Inr (pushToHistory subs regs item)"
| "step strS strR Undo item = undo item"
| "step strS strR Redo item = redo item"

fun run ::
  "('s list \<Rightarrow> 'j) \<Rightarrow> ('r list \<Rightarrow> 'j) \<Rightarrow> ('s, 'r) action list \<Rightarrow>
   ('s, 'r) VideoQueueItem \<Rightarrow> js_error + ('s, 'r) VideoQueueItem" where
  "run strS strR [] item = Inr item"
| "run strS strR (a # as) item =
     (case step strS strR a item of Inl e \<Rightarrow> Inl e | Inr item' \<Rightarrow> run strS strR as item')"

text \<open>The invariant of the history: at most 50 snapshots, and the cursor on one of them.\<close>

definition history_ok :: "('s, 'r) VideoQueueItem \<Rightarrow> bool" where
  "history_ok item \<longleftrightarrow>
     length (history item) \<le> 50 \<and> historyIndex item < length (history item)"

text \<open>
  The pair a call of \<^verbatim>\<open>updateActiveVideo\<close> commits (its local constants
  \<^verbatim>\<open>subtitles\<close> and \<^verbatim>\<open>blurRegions\<close>), and the condition under which the call
  writes a snapshot: a key for subtitles or regions is present, and the serialised pair
  differs from the item's.
\<close>

definition committed_subs :: "('s, 'r) Updates \<Rightarrow> ('s, 'r) VideoQueueItem \<Rightarrow> 's list" where
  "committed_subs u item = (case u_subtitles u of Some v \<Rightarrow> v | None \<Rightarrow> subtitles item)"

definition committed_regs :: "('s, 'r) Updates \<Rightarrow> ('s, 'r) VideoQueueItem \<Rightarrow> 'r list" where
  "committed_regs u item = (case u_blurRegions u of Some v \<Rightarrow> v | None \<Rightarrow> blurRegions item)"

definition takes_effect ::
  "('s list \<Rightarrow> 'j) \<Rightarrow> ('r list \<Rightarrow> 'j) \<Rightarrow> ('s, 'r) Updates \<Rightarrow> ('s, 'r) VideoQueueItem \<Rightarrow> bool" where
  "takes_effect strS strR u item \<longleftrightarrow>
     (u_subtitles u \<noteq> None \<or> u_blurRegions u \<noteq> None) \<and>
     (strS (committed_subs u item) \<noteq> strS (subtitles item) \<or>
      strR (committed_regs u item) \<noteq> strR (blurRegions item))"


section \<open>Objects with ordered properties and their JSON text\<close>






section \<open>Subtitle and region objects in a store\<close>

text \<open>
  Where the sharing of objects matters, an array holds the addresses of its elements
  and the objects live in a store. The spread \<^verbatim>\<open>[...subtitles]\<close> copies the addresses
  into a new array; arrays themselves stay values here, since every array the history
  code stores is such a copy. \<^verbatim>\<open>JSON.stringify\<close> of an array of addresses reads the
  objects through the store.
\<close>

record store =
  sub_objs :: "nat \<Rightarrow> SubtitleEntry"
  reg_objs :: "nat \<Rightarrow> BlurRegion"

definition read_subs :: "store \<Rightarrow> nat list \<Rightarrow> SubtitleEntry list" where
  "read_subs st refs = map (sub_objs st) refs"

definition read_regs :: "store \<Rightarrow> nat list \<Rightarrow> BlurRegion list" where
  "read_regs st refs = map (reg_objs st) refs"

definition read_snapshot ::
  "store \<Rightarrow> (nat, nat) HistoryState \<Rightarrow> SubtitleEntry list \<times> BlurRegion list" where
  "read_snapshot st snap = (read_subs st (hs_subtitles snap), read_regs st (hs_blurRegions snap))"

text \<open>\<^verbatim>\<open>updateActiveVideo\<close> on an item whose arrays hold addresses into the store.\<close>

definition updateActiveVideo_in ::
  "(SubtitleEntry list \<Rightarrow> 'j) \<Rightarrow> (BlurRegion list \<Rightarrow> 'j) \<Rightarrow> store \<Rightarrow> (nat, nat) Updates \<Rightarrow>
   (nat, nat) VideoQueueItem \<Rightarrow> (nat, nat) VideoQueueItem" where
  "updateActiveVideo_in stringifyS stringifyR st updates item =
     updateActiveVideo (\<lambda>refs. stringifyS (read_subs st refs))
       (\<lambda>refs. stringifyR (read_regs st refs)) updates item"

text \<open>An assignment to a property of the subtitle object, or region object, at an address.\<close>

definition write_sub :: "nat \<Rightarrow> SubtitleEntry \<Rightarrow> store \<Rightarrow> store" where
  "write_sub a v st = st\<lparr>sub_objs := (sub_objs st)(a := v)\<rparr>"

definition write_reg :: "nat \<Rightarrow> BlurRegion \<Rightarrow> store \<Rightarrow> store" where
  "write_reg a v st = st\<lparr>reg_objs := (reg_objs st)(a := v)\<rparr>"

section \<open>Active subtitle resolver (src/components/VideoWorkspace.tsx)\<close>

text \<open>
  Line 46: \<^verbatim>\<open>subtitles.find(s => currentTime >= s.startTime && currentTime <= s.endTime)\<close>.
  \<^verbatim>\<open>Array.prototype.find\<close> returns the first element, in index order, that satisfies
  the predicate, or \<^verbatim>\<open>undefined\<close>; that is \<^const>\<open>find\<close>, with \<^const>\<open>None\<close> for
  \<^verbatim>\<open>undefined\<close>.
\<close>

definition activeSub :: "SubtitleEntry list \<Rightarrow> real \<Rightarrow> SubtitleEntry option" where
  "activeSub subs currentTime =
     find (\<lambda>s. currentTime \<ge> startTime s \<and> currentTime \<le> endTime s) subs"

text \<open>Line 137, in the export loop: the same search at \<^verbatim>\<open>video.currentTime\<close>.\<close>

definition currentSub :: "SubtitleEntry list \<Rightarrow> real \<Rightarrow> SubtitleEntry option" where
  "currentSub subs video_currentTime =
     find (\<lambda>s. video_currentTime \<ge> startTime s \<and> video_currentTime \<le> endTime s) subs"

text \<open>The two entries \<open>{0, 2, "a"}\<close> and \<open>{2, 4, "b"}\<close> of the specification's example.\<close>

definition sub_a :: SubtitleEntry where
  "sub_a = \<lparr>sub_id = js ''1'', startTime = 0, endTime = 2, originalText = js ''a'',
             translatedText = [], audioUrl = None\<rparr>"

definition sub_b :: SubtitleEntry where
  "sub_b = \<lparr>sub_id = js ''2'', startTime = 2, endTime = 4, originalText = js ''b'',
             translatedText = [], audioUrl = None\<rparr>"

section \<open>Subtitle editor (SubtitleEditor component)\<close>

text \<open>
  \<^verbatim>\<open>addSub\<close> (lines 20-29). \<^verbatim>\<open>Date.now()\<close> is the parameter \<open>now\<close>, a count of
  milliseconds. The two default texts are the code units of the source's literals.
\<close>

definition newSub :: "nat \<Rightarrow> real \<Rightarrow> SubtitleEntry" where
  "newSub now currentTime =
     \<lparr>sub_id = nat_toString now,
      startTime = currentTime,
      endTime = currentTime + 2,
      originalText = [86, 259, 110, 32, 98, 7843, 110, 32, 103, 7889, 99, 32, 109, 7899, 105],
      translatedText = [66, 7843, 110, 32, 100, 7883, 99, 104, 32, 109, 7899, 105],
      audioUrl = None\<rparr>"

text \<open>
  \<^verbatim>\<open>[...prev, newSub].sort((a, b) => a.startTime - b.startTime)\<close>. The comparator is a
  consistent ordering on finite numbers, and \<^verbatim>\<open>Array.prototype.sort\<close> is stable, so the
  result is the one stable arrangement in ascending \<^verbatim>\<open>startTime\<close>: \<^const>\<open>sort_key\<close>.
\<close>

definition addSub :: "nat \<Rightarrow> real \<Rightarrow> SubtitleEntry list \<Rightarrow> SubtitleEntry list" where
  "addSub now currentTime prev = sort_key startTime (prev @ [newSub now currentTime])"

text \<open>\<^verbatim>\<open>updateSub\<close> for the start time, and \<^verbatim>\<open>removeSub\<close> (lines 12-18).\<close>

definition updateSub_startTime :: "js_string \<Rightarrow> real \<Rightarrow> SubtitleEntry list \<Rightarrow> SubtitleEntry list" where
  "updateSub_startTime i v prev = map (\<lambda>sub. if sub_id sub = i then sub\<lparr>startTime := v\<rparr> else sub) prev"

definition removeSub :: "js_string \<Rightarrow> SubtitleEntry list \<Rightarrow> SubtitleEntry list" where
  "removeSub i prev = filter (\<lambda>sub. sub_id sub \<noteq> i) prev"

section \<open>Region editor (src/components/VideoWorkspace.tsx)\<close>

text \<open>
  The state the pointer handlers read and write: the \<^verbatim>\<open>blurRegions\<close> and \<^verbatim>\<open>isDrawing\<close>
  props (owned by \<^verbatim>\<open>App\<close>) and the component's own \<^verbatim>\<open>useState\<close> cells. Every call of
  \<^verbatim>\<open>setBlurRegions\<close> reaches \<^verbatim>\<open>updateActiveVideo({ blurRegions })\<close> in \<^verbatim>\<open>App\<close>, so the
  region list of this state is, after each handler, the list that was committed last.
\<close>

datatype edit_action = Move | Resize

record editor =
  regions :: "BlurRegion list"
  isDrawing :: bool
  startPos :: "(real \<times> real) option"
  currentDrag :: "BlurRegion option"
  editingIdx :: "nat option"
  editAction :: "edit_action option"
  dragOffset :: "(real \<times> real) option"

definition initial_editor :: editor where
  "initial_editor = \<lparr>regions = [], isDrawing = False, startPos = None, currentDrag = None,
     editingIdx = None, editAction = None, dragOffset = None\<rparr>"

text \<open>
  A handler returns \<^const>\<open>None\<close> where the source reads \<^verbatim>\<open>blurRegions[idx]\<close> outside
  the array: \<^verbatim>\<open>handleRegionMouseDown\<close> then throws a TypeError, and \<^verbatim>\<open>handleMouseMove\<close>
  writes a region whose fields are NaN; neither is a state of this model. The pointer
  position is the result of \<^verbatim>\<open>getRelativeCoords\<close>, in percent of the frame.
\<close>

text \<open>
  \<^verbatim>\<open>handleMouseDown\<close> (lines 175-185); \<open>on_region\<close> is
  \<^verbatim>\<open>target.closest('.blur-region-item')\<close>.
\<close>

definition handleMouseDown :: "real \<times> real \<Rightarrow> bool \<Rightarrow> editor \<Rightarrow> editor" where
  "handleMouseDown coords on_region ed =
     (let ed1 = (if editingIdx ed \<noteq> None \<and> \<not> isDrawing ed \<and> \<not> on_region
                 then ed\<lparr>editingIdx := None\<rparr> else ed)
      in if \<not> isDrawing ed then ed1 else ed1\<lparr>startPos := Some coords\<rparr>)"

text \<open>\<^verbatim>\<open>handleMouseMove\<close> (lines 187-219).\<close>

definition handleMouseMove :: "real \<times> real \<Rightarrow> editor \<Rightarrow> editor option" where
  "handleMouseMove coords ed =
     (if isDrawing ed \<and> startPos ed \<noteq> None then
        (let sp = the (startPos ed)
         in Some (ed\<lparr>currentDrag := Some
              \<lparr>region_x = min (fst sp) (fst coords),
               region_y = min (snd sp) (snd coords),
               region_width = \<bar>fst coords - fst sp\<bar>,
               region_height = \<bar>snd coords - snd sp\<bar>\<rparr>\<rparr>))
      else if editingIdx ed \<noteq> None \<and> editAction ed \<noteq> None then
        (let regionIdx = the (editingIdx ed);
             moveAction = the (editAction ed);
             offset = dragOffset ed
         in if regionIdx < length (regions ed) then
              (let region = regions ed ! regionIdx;
                   region' =
                     (if moveAction = Move \<and> offset \<noteq> None then
                        region\<lparr>region_x :=
                                  max 0 (min (100 - region_width region) (fst coords - fst (the offset))),
                               region_y :=
                                  max 0 (min (100 - region_height region) (snd coords - snd (the offset)))\<rparr>
                      else if moveAction = Resize then
                        region\<lparr>region_width := max 1 (fst coords - region_x region),
                               region_height := max 1 (snd coords - region_y region)\<rparr>
                      else region)
               in Some (ed\<lparr>regions := (regions ed)[regionIdx := region']\<rparr>))
            else None)
      else Some ed)"

text \<open>\<^verbatim>\<open>handleMouseUp\<close> (lines 221-232).\<close>

definition handleMouseUp :: "editor \<Rightarrow> editor" where
  "handleMouseUp ed =
     (let ed1 =
        (if isDrawing ed \<and> currentDrag ed \<noteq> None then
           (let drag = the (currentDrag ed);
                ed0 = (if region_width drag > 0.5 \<and> region_height drag > 0.5
                       then ed\<lparr>regions := regions ed @ [drag]\<rparr> else ed)
            in ed0\<lparr>currentDrag := None, startPos := None, isDrawing := False\<rparr>)
         else ed)
      in ed1\<lparr>editAction := None, dragOffset := None\<rparr>)"

text \<open>
  \<^verbatim>\<open>handleRegionMouseDown\<close> (lines 234-242). In draw mode it returns before
  \<^verbatim>\<open>stopPropagation\<close>, and the event bubbles to \<^verbatim>\<open>handleMouseDown\<close> of the container.
\<close>

definition handleRegionMouseDown :: "nat \<Rightarrow> real \<times> real \<Rightarrow> editor \<Rightarrow> editor option" where
  "handleRegionMouseDown idx coords ed =
     (if isDrawing ed then Some (handleMouseDown coords True ed)
      else if idx < length (regions ed) then
        (let region = regions ed ! idx
         in Some (ed\<lparr>editingIdx := Some idx, editAction := Some Move,
                     dragOffset := Some (fst coords - region_x region, snd coords - region_y region)\<rparr>))
      else None)"

text \<open>\<^verbatim>\<open>handleResizeMouseDown\<close> (lines 244-248); it always stops the propagation.\<close>

definition handleResizeMouseDown :: "nat \<Rightarrow> editor \<Rightarrow> editor" where
  "handleResizeMouseDown idx ed = ed\<lparr>editingIdx := Some idx, editAction := Some Resize\<rparr>"

text \<open>
  The delete button of a region (lines 295-298): \<^verbatim>\<open>prev.filter((_, i) => i !== idx)\<close>,
  then \<^verbatim>\<open>setEditingIdx(null)\<close>.
\<close>

definition removeRegion :: "nat \<Rightarrow> editor \<Rightarrow> editor" where
  "removeRegion idx ed =
     ed\<lparr>regions := map snd (filter (\<lambda>(i, r). i \<noteq> idx) (enumerate 0 (regions ed))),
        editingIdx := None\<rparr>"

text \<open>
  The events of the editor: the pointer handlers, the delete button, and
  \<^verbatim>\<open>setIsDrawing(true)\<close>, which \<^verbatim>\<open>App.processVideo\<close> calls when no region exists.
\<close>

datatype event =
    MouseDown "real \<times> real" bool
  | MouseMove "real \<times> real"
  | MouseUp
  | RegionMouseDown nat "real \<times> real"
  | ResizeMouseDown nat
  | RemoveRegion nat
  | StartDrawing

fun handle :: "event \<Rightarrow> editor \<Rightarrow> editor option" where
  "handle (MouseDown coords on_region) ed = Some (handleMouseDown coords on_region ed)"
| "handle (MouseMove coords) ed = handleMouseMove coords ed"
| "handle MouseUp ed = Some (handleMouseUp ed)"
| "handle (RegionMouseDown idx coords) ed = handleRegionMouseDown idx coords ed"
| "handle (ResizeMouseDown idx) ed = Some (handleResizeMouseDown idx ed)"
| "handle (RemoveRegion idx) ed = Some (removeRegion idx ed)"
| "handle StartDrawing ed = Some (ed\<lparr>isDrawing := True\<rparr>)"

fun gestures :: "event list \<Rightarrow> editor \<Rightarrow> editor option" where
  "gestures [] ed = Some ed"
| "gestures (ev # evs) ed = (case handle ev ed of None \<Rightarrow> None | Some ed' \<Rightarrow> gestures evs ed')"

text \<open>
  An event is admissible in a state when its pointer position lies inside the frame and
  the element it is delivered to is rendered: a region of the list, or the resize
  handle, which only the selected region shows.
\<close>

definition in_frame :: "real \<times> real \<Rightarrow> bool" where
  "in_frame coords \<longleftrightarrow> 0 \<le> fst coords \<and> fst coords \<le> 100 \<and> 0 \<le> snd coords \<and> snd coords \<le> 100"

fun admissible :: "event \<Rightarrow> editor \<Rightarrow> bool" where
  "admissible (MouseDown coords on_region) ed = in_frame coords"
| "admissible (MouseMove coords) ed = in_frame coords"
| "admissible MouseUp ed = True"
| "admissible (RegionMouseDown idx coords) ed = (in_frame coords \<and> idx < length (regions ed))"
| "admissible (ResizeMouseDown idx) ed = (editingIdx ed = Some idx \<and> idx < length (regions ed))"
| "admissible (RemoveRegion idx) ed = (idx < length (regions ed))"
| "admissible StartDrawing ed = True"

fun all_admissible :: "event list \<Rightarrow> editor \<Rightarrow> bool" where
  "all_admissible [] ed = True"
| "all_admissible (ev # evs) ed =
     (admissible ev ed \<and> (case handle ev ed of None \<Rightarrow> False | Some ed' \<Rightarrow> all_admissible evs ed'))"

text \<open>
  The bounds of a committed region: origin and size within \<open>[0, 100]\<close>, and each side above
  the threshold \<open>0.5\<close> of \<^verbatim>\<open>handleMouseUp\<close>.
\<close>

definition region_ok :: "BlurRegion \<Rightarrow> bool" where
  "region_ok r \<longleftrightarrow>
     0 \<le> region_x r \<and> region_x r \<le> 100 \<and> 0 \<le> region_y r \<and> region_y r \<le> 100 \<and>
     0.5 < region_width r \<and> region_width r \<le> 100 \<and>
     0.5 < region_height r \<and> region_height r \<le> 100"

definition drag_ok :: "BlurRegion \<Rightarrow> bool" where
  "drag_ok r \<longleftrightarrow>
     0 \<le> region_x r \<and> region_x r \<le> 100 \<and> 0 \<le> region_y r \<and> region_y r \<le> 100 \<and>
     0 \<le> region_width r \<and> region_width r \<le> 100 \<and>
     0 \<le> region_height r \<and> region_height r \<le> 100"

definition editor_ok :: "editor \<Rightarrow> bool" where
  "editor_ok ed \<longleftrightarrow>
     list_all region_ok (regions ed) \<and>
     (case currentDrag ed of None \<Rightarrow> True | Some d \<Rightarrow> drag_ok d) \<and>
     (case startPos ed of None \<Rightarrow> True | Some p \<Rightarrow> in_frame p) \<and>
     (case editingIdx ed of None \<Rightarrow> True | Some i \<Rightarrow> i < length (regions ed))"

section \<open>Retry helper (src/services/geminiService.ts)\<close>

text \<open>
  The value a remote call throws: the two properties \<^verbatim>\<open>withRetry\<close> reads, either of
  which may be \<^verbatim>\<open>undefined\<close>. \<^verbatim>\<open>String.prototype.includes\<close> is the search for a
  contiguous occurrence.
\<close>

record js_err =
  err_message :: "js_string option"
  err_status :: "real option"

fun js_includes :: "js_string \<Rightarrow> js_string \<Rightarrow> bool" where
  "js_includes [] sub = (sub = [])"
| "js_includes (c # cs) sub = (take (length sub) (c # cs) = sub \<or> js_includes cs sub)"

definition isRateLimit :: "js_err \<Rightarrow> bool" where
  "isRateLimit error \<longleftrightarrow>
     (case err_message error of None \<Rightarrow> False | Some m \<Rightarrow> js_includes m (js ''429'')) \<or>
     (case err_message error of None \<Rightarrow> False | Some m \<Rightarrow> js_includes m (js ''quota'')) \<or>
     err_status error = Some 429"

definition isServerError :: "js_err \<Rightarrow> bool" where
  "isServerError error \<longleftrightarrow> (case err_status error of None \<Rightarrow> False | Some s \<Rightarrow> s \<ge> 500)"

text \<open>
  What one run of \<^verbatim>\<open>withRetry\<close> does: the value it returns or throws
  (\<^const>\<open>None\<close> is \<^verbatim>\<open>undefined\<close>, the initial \<^verbatim>\<open>lastError\<close>), how many times it called
  \<^verbatim>\<open>fn\<close>, and the durations it passed to \<^verbatim>\<open>sleep\<close>, in order.
\<close>

record 'a retry_result =
  outcome :: "js_err option + 'a"
  calls :: nat
  sleeps :: "real list"

text \<open>
  The loop of \<^verbatim>\<open>withRetry\<close> (lines 8-28) from iteration \<open>i\<close>. The remote call is the
  function \<open>fn\<close> from the number of the call (from 0) to what that call does: it
  rejects with an error or resolves with a value. \<open>random i\<close> is the value of
  \<^verbatim>\<open>Math.random()\<close> drawn in iteration \<open>i\<close>.
\<close>

function retry_loop ::
  "(nat \<Rightarrow> js_err + 'a) \<Rightarrow> (nat \<Rightarrow> real) \<Rightarrow> nat \<Rightarrow> nat \<Rightarrow> js_err option \<Rightarrow> real list \<Rightarrow>
   'a retry_result" where
  "retry_loop fn random maxRetries i lastError slept =
     (if i < maxRetries then
        (case fn i of
           Inr v \<Rightarrow> \<lparr>outcome = Inr v, calls = i + 1, sleeps = slept\<rparr>
         | Inl error \<Rightarrow>
             if isRateLimit error \<or> isServerError error then
               (let waitTime = 2 ^ i * 1000 + random i * 1000
                in retry_loop fn random maxRetries (i + 1) (Some error) (slept @ [waitTime]))
             else \<lparr>outcome = Inl (Some error), calls = i + 1, sleeps = slept\<rparr>)
      else \<lparr>outcome = Inl lastError, calls = i, sleeps = slept\<rparr>)"
  by pat_completeness auto
termination
  by (relation "measure (\<lambda>(fn, random, maxRetries, i, lastError, slept). maxRetries - i)") auto

declare retry_loop.simps [simp del]

definition withRetry :: "(nat \<Rightarrow> js_err + 'a) \<Rightarrow> (nat \<Rightarrow> real) \<Rightarrow> nat \<Rightarrow> 'a retry_result" where
  "withRetry fn random maxRetries = retry_loop fn random maxRetries 0 None []"

text \<open>The call \<open>k\<close> of \<open>fn\<close> rejects with an error of the rate-limit or server-error class.\<close>

definition retryable_at :: "(nat \<Rightarrow> js_err + 'a) \<Rightarrow> nat \<Rightarrow> bool" where
  "retryable_at fn k \<longleftrightarrow>
     (case fn k of Inl error \<Rightarrow> isRateLimit error \<or> isServerError error | Inr v \<Rightarrow> False)"

definition backoff :: "(nat \<Rightarrow> real) \<Rightarrow> nat \<Rightarrow> real" where
  "backoff random i = 2 ^ i * 1000 + random i * 1000"

text \<open>What the call \<open>k\<close> of \<open>fn\<close> rejects with, if it rejects.\<close>

definition thrown_at :: "(nat \<Rightarrow> js_err + 'a) \<Rightarrow> nat \<Rightarrow> js_err option" where
  "thrown_at fn k = (case fn k of Inl e \<Rightarrow> Some e | Inr v \<Rightarrow> None)"


section \<open>Audio cueing (src/components/VideoWorkspace.tsx)\<close>

text \<open>
  \<^verbatim>\<open>HTMLAudioElement\<close> objects live in a store, addressed by the order of their creation;
  \<open>next_audio\<close> counts the calls of \<^verbatim>\<open>new Audio\<close> so far. \<^verbatim>\<open>audioCache\<close> is the
  \<^verbatim>\<open>Map<string, HTMLAudioElement>\<close> of line 36 and \<^verbatim>\<open>activeAudio\<close> the ref of line 37;
  both hold addresses. The \<^verbatim>\<open>src\<close> of an element reads back the string it was built from.
\<close>

record audio_element =
  src :: js_string
  audio_currentTime :: real
  paused :: bool

record audio_state =
  elements :: "nat \<Rightarrow> audio_element"
  next_audio :: nat
  audioCache :: "js_string \<Rightarrow> nat option"
  activeAudio :: "nat option"

definition initial_audio :: audio_state where
  "initial_audio =
     \<lparr>elements = (\<lambda>a. \<lparr>src = [], audio_currentTime = 0, paused = True\<rparr>),
      next_audio = 0, audioCache = Map.empty, activeAudio = None\<rparr>"

definition pause :: "nat \<Rightarrow> audio_state \<Rightarrow> audio_state" where
  "pause a st = st\<lparr>elements := (elements st)(a := (elements st a)\<lparr>paused := True\<rparr>)\<rparr>"

text \<open>
  \<^verbatim>\<open>!activeSub.audioUrl\<close>: the url is \<^verbatim>\<open>undefined\<close> or the empty string (which
  \<^verbatim>\<open>generateVoiceover\<close> returns for an empty text).
\<close>

definition no_audioUrl :: "SubtitleEntry \<Rightarrow> bool" where
  "no_audioUrl s \<longleftrightarrow> audioUrl s = None \<or> audioUrl s = Some []"

text \<open>
  The effect of lines 52-77, run on every change of the active subtitle or of the time.
  \<open>play_ok\<close> tells whether \<^verbatim>\<open>audio.play()\<close> resolves; a rejection is swallowed and
  leaves the element paused.
\<close>

definition audio_effect :: "bool \<Rightarrow> SubtitleEntry option \<Rightarrow> audio_state \<Rightarrow> audio_state" where
  "audio_effect play_ok active st =
     (if active = None \<or> no_audioUrl (the active) then
        (case activeAudio st of
           Some a \<Rightarrow> (pause a st)\<lparr>activeAudio := None\<rparr>
         | None \<Rightarrow> st)
      else
        (let url = the (audioUrl (the active))
         in if (case activeAudio st of Some a \<Rightarrow> src (elements st a) = url | None \<Rightarrow> False)
            then st
            else
              (let st1 = (case activeAudio st of Some a \<Rightarrow> pause a st | None \<Rightarrow> st);
                   audio = (case audioCache st1 url of Some a \<Rightarrow> a | None \<Rightarrow> next_audio st1);
                   st2 = (case audioCache st1 url of
                            Some a \<Rightarrow> st1
                          | None \<Rightarrow> st1\<lparr>elements := (elements st1)
                                          (audio := \<lparr>src = url, audio_currentTime = 0, paused = True\<rparr>),
                                        next_audio := next_audio st1 + 1,
                                        audioCache := (audioCache st1)(url \<mapsto> audio)\<rparr>)
               in st2\<lparr>elements := (elements st2)
                          (audio := (elements st2 audio)\<lparr>audio_currentTime := 0,
                                                        paused := \<not> play_ok\<rparr>),
                      activeAudio := Some audio\<rparr>)))"

text \<open>
  The invariant of the cache: every cached element was created and was built from the
  key it is stored under, and the playing element is the cached one for its \<^verbatim>\<open>src\<close>.
\<close>

definition cache_ok :: "audio_state \<Rightarrow> bool" where
  "cache_ok st \<longleftrightarrow>
     (\<forall>k a. audioCache st k = Some a \<longrightarrow> a < next_audio st \<and> src (elements st a) = k) \<and>
     (\<forall>a. activeAudio st = Some a \<longrightarrow> audioCache st (src (elements st a)) = Some a)"

section \<open>Subtitle interchange format (src/utils/srt.ts)\<close>

text \<open>
  The numbers of this file are IEEE 754 doubles, and what \<^verbatim>\<open>formatTime\<close> prints depends
  on how its quotients and its product are rounded. A double is modelled as the real
  number that it is. The remainder \<^verbatim>\<open>%\<close> and \<^verbatim>\<open>Math.floor\<close> are exact on doubles (their
  results are doubles); a division, multiplication or addition returns the double
  nearest to the exact result. This rounding is the parameter \<open>fl\<close> of the functions
  below, and each of these operations of the source is written as \<open>fl\<close> of the exact
  result.

  \<^verbatim>\<open>timestampToSeconds\<close> (lines 4-8). A destructuring pattern takes the leading elements
  of the array and binds \<^verbatim>\<open>undefined\<close> to a name without one, which makes the sum NaN:
  \<^const>\<open>None\<close>.
\<close>

definition timestampToSeconds :: "(real \<Rightarrow> real) \<Rightarrow> js_string \<Rightarrow> real option" where
  "timestampToSeconds fl srtTimestamp =
     (case split_on 44 srtTimestamp of
        time # ms # _ \<Rightarrow>
          (case map js_Number (split_on 58 time) of
             Some h # Some m # Some s # _ \<Rightarrow>
               (case js_Number ms of
                  Some ms' \<Rightarrow>
                    Some (fl (fl (fl (fl (h * 3600) + fl (m * 60)) + s) + fl (ms' / 1000)))
                | None \<Rightarrow> None)
           | _ \<Rightarrow> None)
      | _ \<Rightarrow> None)"


text \<open>
  \<^verbatim>\<open>content.trim().split(/\n\s*\n/)\<close>. A match starts at a line feed; the greedy
  \<^verbatim>\<open>\s*\<close> takes the whole run of white space that follows and gives back until a line
  feed comes next, so the match ends behind the last line feed of that run, and there is
  no match when the run holds none. \<open>sep_end cs\<close> is what remains of \<open>cs\<close>, the text
  behind a line feed, after such a match. The pieces are the texts between the matches,
  found from left to right.
\<close>

definition sep_end :: "js_string \<Rightarrow> js_string option" where
  "sep_end cs =
     (let ws = takeWhile is_space cs
      in if 10 \<in> set ws
         then Some (rev (takeWhile (\<lambda>c. c \<noteq> 10) (rev ws)) @ dropWhile is_space cs)
         else None)"

lemma sep_end_length: "sep_end cs = Some r \<Longrightarrow> length r \<le> length cs"
proof -
  assume a: "sep_end cs = Some r"
  have "length (rev (takeWhile (\<lambda>c. c \<noteq> 10) (rev (takeWhile is_space cs))))
          \<le> length (takeWhile is_space cs)"
    using length_takeWhile_le[of "\<lambda>c. c \<noteq> 10" "rev (takeWhile is_space cs)"] by simp
  moreover have "length (takeWhile is_space cs) + length (dropWhile is_space cs) = length cs"
    using takeWhile_dropWhile_id[of is_space cs] by (metis length_append)
  ultimately show ?thesis
    using a by (auto simp: sep_end_def Let_def split: if_splits)
qed

function split_blank :: "js_string \<Rightarrow> js_string list" where
  "split_blank [] = [[]]"
| "split_blank (c # cs) =
     (case (if c = 10 then sep_end cs else None) of
        Some rest \<Rightarrow> [] # split_blank rest
      | None \<Rightarrow> cons_first c (split_blank cs))"
  by pat_completeness auto
termination
  by (relation "measure length") (auto split: if_splits dest: sep_end_length)

text \<open>
  \<^verbatim>\<open>timeLine.match(/(\d{2}:\d{2}:\d{2},\d{3}) --> (\d{2}:\d{2}:\d{2},\d{3})/)\<close>: the
  pattern has a fixed length of 29 characters, each a digit or a literal; the match is
  the leftmost position where all 29 fit, and the groups are its characters 0 to 11 and
  17 to 28.
\<close>

datatype char_class = Digit | Lit nat

fun fits :: "char_class \<Rightarrow> nat \<Rightarrow> bool" where
  "fits Digit c = is_digit c"
| "fits (Lit l) c = (c = l)"

definition stamp_pattern :: "char_class list" where
  "stamp_pattern =
     [Digit, Digit, Lit 58, Digit, Digit, Lit 58, Digit, Digit, Lit 44, Digit, Digit, Digit]"

definition time_pattern :: "char_class list" where
  "time_pattern = stamp_pattern @ map Lit (js '' --> '') @ stamp_pattern"

fun matches_prefix :: "char_class list \<Rightarrow> js_string \<Rightarrow> bool" where
  "matches_prefix [] s = True"
| "matches_prefix (p # ps) [] = False"
| "matches_prefix (p # ps) (c # cs) = (fits p c \<and> matches_prefix ps cs)"

fun time_match :: "js_string \<Rightarrow> (js_string \<times> js_string) option" where
  "time_match [] = None"
| "time_match (c # cs) =
     (if matches_prefix time_pattern (c # cs)
      then Some (take 12 (c # cs), take 12 (drop 17 (c # cs)))
      else time_match cs)"

text \<open>
  The callback of \<^verbatim>\<open>blocks.forEach\<close> in \<^verbatim>\<open>parseSRT\<close> (lines 22-37): the entries it
  pushes for one block, none or one. \<open>now index\<close> is the value of \<^verbatim>\<open>Date.now()\<close> in
  the call for the block \<open>index\<close>. The result is \<^const>\<open>None\<close> when a time of the entry
  would be NaN.
\<close>

definition parse_block ::
  "(real \<Rightarrow> real) \<Rightarrow> (nat \<Rightarrow> nat) \<Rightarrow> nat \<Rightarrow> js_string \<Rightarrow> SubtitleEntry list option" where
  "parse_block fl now index block =
     (let lines = split_on 10 block
      in if length lines \<ge> 3 then
           (let timeLine = lines ! 1
            in case time_match timeLine of
                 Some (g1, g2) \<Rightarrow>
                   (case (timestampToSeconds fl g1, timestampToSeconds fl g2) of
                      (Some start_s, Some end_s) \<Rightarrow>
                        Some [\<lparr>sub_id = js ''srt-'' @ nat_toString index @ js ''-''
                                         @ nat_toString (now index),
                               startTime = start_s,
                               endTime = end_s,
                               originalText = js_join (js '' '') (drop 2 lines),
                               translatedText = [],
                               audioUrl = None\<rparr>]
                    | _ \<Rightarrow> None)
               | None \<Rightarrow> Some [])
         else Some [])"

fun parse_blocks ::
  "(real \<Rightarrow> real) \<Rightarrow> (nat \<Rightarrow> nat) \<Rightarrow> nat \<Rightarrow> js_string list \<Rightarrow> SubtitleEntry list option" where
  "parse_blocks fl now index [] = Some []"
| "parse_blocks fl now index (block # blocks) =
     (case parse_block fl now index block of
        None \<Rightarrow> None
      | Some entries \<Rightarrow>
          (case parse_blocks fl now (index + 1) blocks of
             None \<Rightarrow> None
           | Some further \<Rightarrow> Some (entries @ further)))"

text \<open>\<^verbatim>\<open>parseSRT\<close> (lines 18-40).\<close>

definition parseSRT ::
  "(real \<Rightarrow> real) \<Rightarrow> (nat \<Rightarrow> nat) \<Rightarrow> js_string \<Rightarrow> SubtitleEntry list option" where
  "parseSRT fl now content = parse_blocks fl now 0 (split_blank (trim content))"

text \<open>
  \<^verbatim>\<open>generateSRT\<close> (lines 42-48). The empty string is falsy, so
  \<^verbatim>\<open>entry.translatedText || entry.originalText\<close> is the translated text unless it is empty.
\<close>

definition emitted_text :: "SubtitleEntry \<Rightarrow> js_string" where
  "emitted_text entry =
     (if translatedText entry \<noteq> [] then translatedText entry else originalText entry)"




text \<open>
  The doubles of absolute value below \<open>2^53\<close>: an integer of less than 53 bits over a
  power of two, the exponent not below that of the least subnormal. What the proofs use
  of the rounding \<open>fl\<close>: it is monotone, and no double (of these) is nearer to \<open>x\<close>
  than \<open>fl x\<close> is; so it leaves these doubles as they are. The rounding of IEEE 754 to
  the nearest double has both properties on the numbers within the range of doubles.
\<close>

definition is_double :: "real \<Rightarrow> bool" where
  "is_double x \<longleftrightarrow> (\<exists>(k :: int) (n :: nat). \<bar>k\<bar> < 2 ^ 53 \<and> n \<le> 1074 \<and> x = of_int k / 2 ^ n)"



text \<open>
  The entries that survive the round trip: both times doubles from 0 up to, and not
  including, 100 hours, and an emitted text with no line feed and with a character that
  is not white space. \<open>reparsed fl now index e\<close> is the entry that \<^verbatim>\<open>parseSRT\<close> builds
  from the block of \<open>e\<close> at position \<open>index\<close>: its times are read from the timestamps
  that \<^verbatim>\<open>formatTime\<close> printed.
\<close>

definition srt_ok :: "SubtitleEntry \<Rightarrow> bool" where
  "srt_ok e \<longleftrightarrow>
     is_double (startTime e) \<and> 0 \<le> startTime e \<and> startTime e < 360000 \<and>
     is_double (endTime e) \<and> 0 \<le> endTime e \<and> endTime e < 360000 \<and>
     10 \<notin> set (emitted_text e) \<and> \<not> list_all is_space (emitted_text e)"




section \<open>Concrete sessions used as test inputs\<close>

text \<open>
  The scenario of the specification: one region \<open>(x=10, y=80, w=30, h=15)\<close> drawn on a
  fresh item. \<open>render_subs\<close> and \<open>render_regs\<close> stand for \<^verbatim>\<open>JSON.stringify\<close> in
  the examples: two injective renderings into one type. \<open>full_item\<close> is an item whose
  history holds 50 snapshots with the cursor on the last.
\<close>

definition scenario_region :: BlurRegion where
  "scenario_region = \<lparr>region_x = 10, region_y = 80, region_width = 30, region_height = 15\<rparr>"

definition scenario_update :: "(SubtitleEntry, BlurRegion) Updates" where
  "scenario_update = \<lparr>u_status = None, u_subtitles = None, u_blurRegions = Some [scenario_region],
      u_fontFamily = None, u_fontSize = None\<rparr>"

definition scenario_item :: "(SubtitleEntry, BlurRegion) VideoQueueItem" where
  "scenario_item = newItem (js ''Inter'') 18"

definition render_subs :: "SubtitleEntry list \<Rightarrow> (SubtitleEntry + BlurRegion) list" where
  "render_subs xs = map Inl xs"

definition render_regs :: "BlurRegion list \<Rightarrow> (SubtitleEntry + BlurRegion) list" where
  "render_regs xs = map Inr xs"

definition full_item :: "(nat, nat) VideoQueueItem" where
  "full_item = \<lparr>status = IDLE, subtitles = [49], blurRegions = [],
      fontFamily = [], fontSize = 18,
      history = map (\<lambda>n. \<lparr>hs_subtitles = [n], hs_blurRegions = []\<rparr>) [0..<50],
      historyIndex = 49\<rparr>"

definition full_update :: "(nat, nat) Updates" where
  "full_update = \<lparr>u_status = None, u_subtitles = Some [50], u_blurRegions = None,
      u_fontFamily = None, u_fontSize = None\<rparr>"

text \<open>
  A session of the region editor: draw \<open>(10, 80, 30, 15)\<close>, drag it to the lower right
  corner, shrink it below one unit, then draw a rectangle that is too narrow.
\<close>

definition demo_gestures :: "event list" where
  "demo_gestures =
     [StartDrawing, MouseDown (10, 80) False, MouseMove (40, 95), MouseUp,
      RegionMouseDown 0 (20, 85), MouseMove (95, 99), MouseUp,
      ResizeMouseDown 0, MouseMove (70.2, 86), MouseUp,
      StartDrawing, MouseDown (50, 50) False, MouseMove (50.3, 60), MouseUp]"

definition demo_result :: editor where
  "demo_result = initial_editor\<lparr>regions :=
      [\<lparr>region_x = 70, region_y = 85, region_width = 1, region_height = 1\<rparr>],
      editingIdx := Some 0\<rparr>"

text \<open>
  Two remote calls: one that fails with a rate-limit message, then a 503 status, then a
  quota message; and one that always fails with a 400 status. The jitter draw is always
  one half.
\<close>

definition quota_error :: js_err where
  "quota_error = \<lparr>err_message = Some (js ''Resource quota exceeded''), err_status = None\<rparr>"

definition flaky :: "nat \<Rightarrow> js_err + nat" where
  "flaky k =
     (if k = 0 then Inl \<lparr>err_message = Some (js ''got status: 429 Too Many Requests''), err_status = None\<rparr>
      else if k = 1 then Inl \<lparr>err_message = None, err_status = Some 503\<rparr>
      else Inl quota_error)"

definition bad_request_error :: js_err where
  "bad_request_error = \<lparr>err_message = Some (js ''Bad Request''), err_status = Some 400\<rparr>"

definition bad_request :: "nat \<Rightarrow> js_err + nat" where
  "bad_request k = Inl bad_request_error"

definition half :: "nat \<Rightarrow> real" where
  "half i = 1 / 2"

text \<open>
  Three subtitles with voice: the second has the id of the first and another url (its
  voice was generated again), the third has another id and the url of the first.
\<close>

definition voiced_1 :: SubtitleEntry where
  "voiced_1 = \<lparr>sub_id = js ''sub-0-1'', startTime = 0, endTime = 2, originalText = js ''a'',
      translatedText = js ''b'', audioUrl = Some (js ''data:audio/wav;base64,AAAA'')\<rparr>"

definition voiced_2 :: SubtitleEntry where
  "voiced_2 = voiced_1\<lparr>audioUrl := Some (js ''data:audio/wav;base64,BBBB'')\<rparr>"

definition voiced_3 :: SubtitleEntry where
  "voiced_3 = voiced_1\<lparr>sub_id := js ''sub-1-1''\<rparr>"

text \<open>The audio state after the first and then the second of them became active.\<close>

definition two_cached :: audio_state where
  "two_cached = audio_effect True (Some voiced_2) (audio_effect True (Some voiced_1) initial_audio)"


text \<open>
  A store whose subtitle object at every address is \<open>sub_a\<close>, a fresh item, and the
  update that commits the one-element subtitle array holding address 0.
\<close>

definition demo_store :: store where
  "demo_store = \<lparr>sub_objs = (\<lambda>a. sub_a), reg_objs = (\<lambda>a. scenario_region)\<rparr>"

definition ref_item :: "(nat, nat) VideoQueueItem" where
  "ref_item = newItem (js ''Inter'') 18"

definition ref_update :: "(nat, nat) Updates" where
  "ref_update = \<lparr>u_status = None, u_subtitles = Some [0], u_blurRegions = None,
      u_fontFamily = None, u_fontSize = None\<rparr>"









section \<open>Properties of the history manager\<close>

lemma push_ok: "history_ok item \<Longrightarrow> history_ok (pushToHistory subs regs item)"
  by (auto simp: history_ok_def pushToHistory_def Let_def)

lemma update_ok: "history_ok item \<Longrightarrow> history_ok (updateActiveVideo strS strR u item)"
  by (auto simp: history_ok_def updateActiveVideo_def Let_def)

lemma undo_ok: "history_ok item \<Longrightarrow> \<exists>item'. undo item = Inr item' \<and> history_ok item'"
  by (auto simp: history_ok_def undo_def Let_def)

lemma redo_ok: "history_ok item \<Longrightarrow> \<exists>item'. redo item = Inr item' \<and> history_ok item'"
  by (auto simp: history_ok_def redo_def Let_def)

lemma step_ok: "history_ok item \<Longrightarrow> \<exists>item'. step strS strR a item = Inr item' \<and> history_ok item'"
  by (cases a) (simp_all add: push_ok update_ok undo_ok redo_ok)

lemma run_ok: "history_ok item \<Longrightarrow> \<exists>item'. run strS strR as item = Inr item' \<and> history_ok item'"
proof (induction as arbitrary: item)
  case Nil
  then show ?case by simp
next
  case (Cons a as)
  from step_ok[OF Cons.prems] obtain item1 where
    s: "step strS strR a item = Inr item1" and ok: "history_ok item1" by blast
  from Cons.IH[OF ok] show ?case using s by simp
qed

lemma update_effect:
  assumes "takes_effect strS strR u item"
  shows "history (updateActiveVideo strS strR u item) =
           (let sliced = take (historyIndex item + 1) (history item)
            in (if length sliced \<ge> 50 then tl sliced else sliced)
               @ [\<lparr>hs_subtitles = committed_subs u item, hs_blurRegions = committed_regs u item\<rparr>])"
    and "historyIndex (updateActiveVideo strS strR u item) =
           (let sliced = take (historyIndex item + 1) (history item)
            in length (if length sliced \<ge> 50 then tl sliced else sliced))"
    and "subtitles (updateActiveVideo strS strR u item) = committed_subs u item"
    and "blurRegions (updateActiveVideo strS strR u item) = committed_regs u item"
  using assms
  by (auto simp: takes_effect_def committed_subs_def committed_regs_def updateActiveVideo_def Let_def
           split: option.splits)

lemma capped_last:
  assumes "sl \<noteq> []"
  shows "(if length sl \<ge> 50 then tl sl else sl) \<noteq> [] \<and>
         last (if length sl \<ge> 50 then tl sl else sl) = last sl"
proof (cases "length sl \<ge> 50")
  case True
  then obtain a b rest where "sl = a # b # rest"
    by (cases sl; cases "tl sl") auto
  then show ?thesis by simp
next
  case False
  then show ?thesis using assms by simp
qed

lemma slice_last:
  assumes "i < length h"
  shows "take (i + 1) h \<noteq> [] \<and> last (take (i + 1) h) = h ! i"
  using assms by (simp add: take_Suc_conv_app_nth)

lemma newItem_ok: "history_ok (newItem ff fs)"
  by (simp add: history_ok_def newItem_def)

lemma evict_shape:
  assumes "length kept \<ge> 50"
  shows "(if length kept \<ge> 50 then tl kept else kept) @ [st] = tl (kept @ [st])"
    and "length (if length kept \<ge> 50 then tl kept else kept) = length kept - 1"
    and "tl (kept @ [st]) ! (length kept - 1) = (kept @ [st]) ! length kept"
proof -
  from assms obtain a rest where k: "kept = a # rest" by (cases kept) auto
  show "(if length kept \<ge> 50 then tl kept else kept) @ [st] = tl (kept @ [st])"
    using assms k by simp
  show "length (if length kept \<ge> 50 then tl kept else kept) = length kept - 1"
    using assms by simp
  show "tl (kept @ [st]) ! (length kept - 1) = (kept @ [st]) ! length kept"
    using k by (simp add: nth_append)
qed

lemma push_effect:
  "history (pushToHistory subs regs item) =
     (if length (take (historyIndex item + 1) (history item)) \<ge> 50
      then tl (take (historyIndex item + 1) (history item))
      else take (historyIndex item + 1) (history item))
     @ [\<lparr>hs_subtitles = subs, hs_blurRegions = regs\<rparr>]"
  "historyIndex (pushToHistory subs regs item) =
     length (if length (take (historyIndex item + 1) (history item)) \<ge> 50
             then tl (take (historyIndex item + 1) (history item))
             else take (historyIndex item + 1) (history item))"
  by (simp_all add: pushToHistory_def Let_def)

lemma full_item_ok: "history_ok full_item"
  by (simp add: history_ok_def full_item_def)

lemma full_update_effect: "takes_effect (\<lambda>s. s) (\<lambda>r. r) full_update full_item"
  by (simp add: takes_effect_def committed_subs_def full_update_def full_item_def)

lemma full_item_kept: "take (historyIndex full_item + 1) (history full_item) = history full_item"
    "length (history full_item) = 50"
  by (simp_all add: full_item_def)

text \<open>
  C1: for an item whose cursor is on a snapshot, and a call of
  \<^verbatim>\<open>updateActiveVideo\<close> that commits: the committed pair is the snapshot at the new
  cursor N, which is at least 1, and the snapshot at N - 1 is the one that was at the
  cursor before the commit. \<^verbatim>\<open>undo\<close> right after the commit does not throw, moves
  the cursor to N - 1 and restores the subtitles and regions of that snapshot (the pair
  of commit N - 1); \<^verbatim>\<open>redo\<close> right after that restores the subtitles and regions that
  \<^verbatim>\<open>undo\<close> replaced, which are the committed pair, and moves the cursor back to N.
\<close>

theorem undo_redo_after_commit:
  assumes cur: "historyIndex item < length (history item)"
      and eff: "takes_effect strS strR u item"
  shows "\<exists>item1 item2.
           1 \<le> historyIndex (updateActiveVideo strS strR u item) \<and>
           history (updateActiveVideo strS strR u item)
             ! historyIndex (updateActiveVideo strS strR u item) =
             \<lparr>hs_subtitles = committed_subs u item, hs_blurRegions = committed_regs u item\<rparr> \<and>
           history (updateActiveVideo strS strR u item)
             ! (historyIndex (updateActiveVideo strS strR u item) - 1) =
             history item ! historyIndex item \<and>
           undo (updateActiveVideo strS strR u item) = Inr item1 \<and>
           historyIndex item1 = historyIndex (updateActiveVideo strS strR u item) - 1 \<and>
           subtitles item1 = hs_subtitles (history item ! historyIndex item) \<and>
           blurRegions item1 = hs_blurRegions (history item ! historyIndex item) \<and>
           redo item1 = Inr item2 \<and>
           subtitles item2 = subtitles (updateActiveVideo strS strR u item) \<and>
           blurRegions item2 = blurRegions (updateActiveVideo strS strR u item) \<and>
           subtitles item2 = committed_subs u item \<and>
           blurRegions item2 = committed_regs u item \<and>
           historyIndex item2 = historyIndex (updateActiveVideo strS strR u item)"
proof -
  define c where "c = updateActiveVideo strS strR u item"
  define nh where "nh = (let sliced = take (historyIndex item + 1) (history item)
                         in (if length sliced \<ge> 50 then tl sliced else sliced))"
  define st where "st = \<lparr>hs_subtitles = committed_subs u item, hs_blurRegions = committed_regs u item\<rparr>"
  have h: "history c = nh @ [st]" and i: "historyIndex c = length nh"
    and s: "subtitles c = committed_subs u item" and r: "blurRegions c = committed_regs u item"
    using update_effect[OF eff] by (simp_all add: c_def nh_def st_def Let_def)
  have ne: "nh \<noteq> []" and la: "last nh = history item ! historyIndex item"
    using capped_last[of "take (historyIndex item + 1) (history item)"] slice_last[OF cur]
    unfolding nh_def Let_def by metis+
  obtain k where k: "length nh = Suc k" using ne by (cases nh) auto
  have prev: "history c ! (length nh - 1) = history item ! historyIndex item"
    using ne la h by (simp add: nth_append last_conv_nth)
  define item1 where "item1 = c\<lparr>historyIndex := length nh - 1,
      subtitles := hs_subtitles (history c ! (length nh - 1)),
      blurRegions := hs_blurRegions (history c ! (length nh - 1))\<rparr>"
  have u1: "undo c = Inr item1"
    using k h i by (simp add: undo_def Let_def item1_def)
  define item2 where "item2 = item1\<lparr>historyIndex := length nh,
      subtitles := hs_subtitles st, blurRegions := hs_blurRegions st\<rparr>"
  have r1: "redo item1 = Inr item2"
    using k h by (simp add: redo_def Let_def item1_def item2_def nth_append)
  have top: "history c ! length nh = st" using h by simp
  show ?thesis
    unfolding c_def[symmetric]
    apply (rule exI[of _ item1], rule exI[of _ item2])
    using u1 r1 k i s r prev top
    by (simp add: item1_def item2_def st_def)
qed

theorem undo_redo_after_commit_witness:
  "historyIndex scenario_item < length (history scenario_item) \<and>
   takes_effect render_subs render_regs scenario_update scenario_item \<and>
   (\<exists>item1 item2.
      undo (updateActiveVideo render_subs render_regs scenario_update scenario_item) = Inr item1 \<and>
      subtitles item1 = [] \<and> blurRegions item1 = [] \<and>
      redo item1 = Inr item2 \<and>
      subtitles item2 = [] \<and> blurRegions item2 = [scenario_region])"
proof -
  have cur: "historyIndex scenario_item < length (history scenario_item)"
    by (simp add: scenario_item_def newItem_def)
  have eff: "takes_effect render_subs render_regs scenario_update scenario_item"
    by (simp add: takes_effect_def committed_regs_def committed_subs_def scenario_update_def
        scenario_item_def newItem_def render_regs_def)
  have h0: "history scenario_item ! historyIndex scenario_item = \<lparr>hs_subtitles = [], hs_blurRegions = []\<rparr>"
    by (simp add: scenario_item_def newItem_def)
  have cs: "committed_subs scenario_update scenario_item = []"
    by (simp add: committed_subs_def scenario_update_def scenario_item_def newItem_def)
  have cr: "committed_regs scenario_update scenario_item = [scenario_region]"
    by (simp add: committed_regs_def scenario_update_def)
  from undo_redo_after_commit[OF cur eff] obtain item1 item2 where
    "undo (updateActiveVideo render_subs render_regs scenario_update scenario_item) = Inr item1"
    "subtitles item1 = hs_subtitles (history scenario_item ! historyIndex scenario_item)"
    "blurRegions item1 = hs_blurRegions (history scenario_item ! historyIndex scenario_item)"
    "redo item1 = Inr item2"
    "subtitles item2 = committed_subs scenario_update scenario_item"
    "blurRegions item2 = committed_regs scenario_update scenario_item"
    by blast
  then show ?thesis using cur eff h0 cs cr by auto
qed

text \<open>
  C2: a new item satisfies the history invariant; from any item that satisfies
  it, every sequence of commits (through \<^verbatim>\<open>updateActiveVideo\<close> or \<^verbatim>\<open>pushToHistory\<close>),
  undos and redos runs without error and ends with at most 50 snapshots and the cursor
  within \<open>[0, length - 1]\<close>. When the snapshots kept by a commit already number 50, the
  result is the uncapped result (kept snapshots plus the new one, cursor on the new one)
  without its snapshot at index 0 and with the cursor one lower, so the snapshot at the
  cursor is the same new snapshot with and without the eviction, and the length is 50.
\<close>

theorem history_capped:
  assumes ok: "history_ok item"
  shows "history_ok (newItem ff fs :: ('s, 'r) VideoQueueItem) \<and>
    (\<exists>item'. run strS strR as item = Inr item' \<and> length (history item') \<le> 50 \<and>
        historyIndex item' < length (history item')) \<and>
    (takes_effect strS strR u item \<and> length (take (historyIndex item + 1) (history item)) \<ge> 50 \<longrightarrow>
      (let kept = take (historyIndex item + 1) (history item);
           newState = \<lparr>hs_subtitles = committed_subs u item, hs_blurRegions = committed_regs u item\<rparr>;
           item' = updateActiveVideo strS strR u item
       in history item' = tl (kept @ [newState]) \<and>
          historyIndex item' = length kept - 1 \<and>
          history item' ! historyIndex item' = (kept @ [newState]) ! length kept \<and>
          history item' ! historyIndex item' = newState \<and>
          length (history item') = 50)) \<and>
    (length (take (historyIndex item + 1) (history item)) \<ge> 50 \<longrightarrow>
      (let kept = take (historyIndex item + 1) (history item);
           newState = \<lparr>hs_subtitles = subs, hs_blurRegions = regs\<rparr>;
           item' = pushToHistory subs regs item
       in history item' = tl (kept @ [newState]) \<and>
          historyIndex item' = length kept - 1 \<and>
          history item' ! historyIndex item' = (kept @ [newState]) ! length kept \<and>
          history item' ! historyIndex item' = newState \<and>
          length (history item') = 50))"
proof -
  define kept where "kept = take (historyIndex item + 1) (history item)"
  have kl: "length kept \<le> 50" using ok by (simp add: kept_def history_ok_def)
  have a: "history_ok (newItem ff fs :: ('s, 'r) VideoQueueItem)" by (rule newItem_ok)
  have b: "\<exists>item'. run strS strR as item = Inr item' \<and> length (history item') \<le> 50 \<and>
        historyIndex item' < length (history item')"
    using run_ok[OF ok, of strS strR as] by (auto simp: history_ok_def)
  have shape: "\<And>st H I. length kept \<ge> 50 \<Longrightarrow>
       H = (if length kept \<ge> 50 then tl kept else kept) @ [st] \<Longrightarrow>
       I = length (if length kept \<ge> 50 then tl kept else kept) \<Longrightarrow>
       H = tl (kept @ [st]) \<and> I = length kept - 1 \<and> H ! I = (kept @ [st]) ! length kept \<and>
       H ! I = st \<and> length H = 50"
  proof -
    fix st H I
    assume big: "length kept \<ge> 50"
       and H: "H = (if length kept \<ge> 50 then tl kept else kept) @ [st]"
       and I: "I = length (if length kept \<ge> 50 then tl kept else kept)"
    have 1: "H = tl (kept @ [st])" using evict_shape(1)[OF big] H by simp
    have 2: "I = length kept - 1" using evict_shape(2)[OF big] I by simp
    have 3: "H ! I = (kept @ [st]) ! length kept" using evict_shape(3)[OF big] 1 2 by simp
    have 4: "H ! I = st" using 3 by simp
    have 5: "length H = 50" using 1 big kl by simp
    show "H = tl (kept @ [st]) \<and> I = length kept - 1 \<and> H ! I = (kept @ [st]) ! length kept \<and>
       H ! I = st \<and> length H = 50" using 1 2 3 4 5 by blast
  qed
  have c: "takes_effect strS strR u item \<and> length kept \<ge> 50 \<longrightarrow>
      (let newState = \<lparr>hs_subtitles = committed_subs u item, hs_blurRegions = committed_regs u item\<rparr>;
           item' = updateActiveVideo strS strR u item
       in history item' = tl (kept @ [newState]) \<and>
          historyIndex item' = length kept - 1 \<and>
          history item' ! historyIndex item' = (kept @ [newState]) ! length kept \<and>
          history item' ! historyIndex item' = newState \<and>
          length (history item') = 50)"
  proof
    assume h: "takes_effect strS strR u item \<and> length kept \<ge> 50"
    then have eff: "takes_effect strS strR u item" and big: "length kept \<ge> 50" by auto
    show "(let newState = \<lparr>hs_subtitles = committed_subs u item, hs_blurRegions = committed_regs u item\<rparr>;
           item' = updateActiveVideo strS strR u item
       in history item' = tl (kept @ [newState]) \<and>
          historyIndex item' = length kept - 1 \<and>
          history item' ! historyIndex item' = (kept @ [newState]) ! length kept \<and>
          history item' ! historyIndex item' = newState \<and>
          length (history item') = 50)"
      unfolding Let_def
      by (rule shape[OF big]) (simp_all add: update_effect[OF eff] Let_def kept_def)
  qed
  have d: "length kept \<ge> 50 \<longrightarrow>
      (let newState = \<lparr>hs_subtitles = subs, hs_blurRegions = regs\<rparr>;
           item' = pushToHistory subs regs item
       in history item' = tl (kept @ [newState]) \<and>
          historyIndex item' = length kept - 1 \<and>
          history item' ! historyIndex item' = (kept @ [newState]) ! length kept \<and>
          history item' ! historyIndex item' = newState \<and>
          length (history item') = 50)"
  proof
    assume big: "length kept \<ge> 50"
    show "(let newState = \<lparr>hs_subtitles = subs, hs_blurRegions = regs\<rparr>;
           item' = pushToHistory subs regs item
       in history item' = tl (kept @ [newState]) \<and>
          historyIndex item' = length kept - 1 \<and>
          history item' ! historyIndex item' = (kept @ [newState]) ! length kept \<and>
          history item' ! historyIndex item' = newState \<and>
          length (history item') = 50)"
      unfolding Let_def
      by (rule shape[OF big]) (simp_all only: push_effect kept_def)
  qed
  show ?thesis using a b c d unfolding kept_def Let_def by blast
qed

theorem history_capped_witness:
  "history_ok full_item \<and>
   takes_effect (\<lambda>s. s) (\<lambda>r. r) full_update full_item \<and>
   length (take (historyIndex full_item + 1) (history full_item)) \<ge> 50 \<and>
   (\<exists>item'. run (\<lambda>s. s) (\<lambda>r. r) [Update full_update, Undo, Redo, Push [51] []] full_item = Inr item' \<and>
      length (history item') \<le> 50 \<and> historyIndex item' < length (history item')) \<and>
   history (updateActiveVideo (\<lambda>s. s) (\<lambda>r. r) full_update full_item)
     = tl (history full_item) @ [\<lparr>hs_subtitles = [50], hs_blurRegions = []\<rparr>] \<and>
   historyIndex (updateActiveVideo (\<lambda>s. s) (\<lambda>r. r) full_update full_item) = 49 \<and>
   length (history (updateActiveVideo (\<lambda>s. s) (\<lambda>r. r) full_update full_item)) = 50 \<and>
   history (pushToHistory [51] [] full_item)
     = tl (history full_item) @ [\<lparr>hs_subtitles = [51], hs_blurRegions = []\<rparr>] \<and>
   historyIndex (pushToHistory [51] [] full_item) = 49"
proof -
  have big: "length (take (historyIndex full_item + 1) (history full_item)) \<ge> 50"
    using full_item_kept by simp
  have cs: "committed_subs full_update full_item = [50]"
    "committed_regs full_update full_item = []"
    by (simp_all add: committed_subs_def committed_regs_def full_update_def full_item_def)
  note T = history_capped[OF full_item_ok, of "js ''Inter''" 18 "\<lambda>s. s" "\<lambda>r. r"
        "[Update full_update, Undo, Redo, Push [51] []]" full_update "[51]" "[]", unfolded Let_def]
  from T have r: "\<exists>item'. run (\<lambda>s. s) (\<lambda>r. r) [Update full_update, Undo, Redo, Push [51] []] full_item = Inr item' \<and>
      length (history item') \<le> 50 \<and> historyIndex item' < length (history item')"
    by blast
  from T full_update_effect big have
    "history (updateActiveVideo (\<lambda>s. s) (\<lambda>r. r) full_update full_item) =
       tl (take (historyIndex full_item + 1) (history full_item) @
           [\<lparr>hs_subtitles = committed_subs full_update full_item,
             hs_blurRegions = committed_regs full_update full_item\<rparr>])"
    "historyIndex (updateActiveVideo (\<lambda>s. s) (\<lambda>r. r) full_update full_item) =
       length (take (historyIndex full_item + 1) (history full_item)) - 1"
    "length (history (updateActiveVideo (\<lambda>s. s) (\<lambda>r. r) full_update full_item)) = 50"
    by blast+
  then have u: "history (updateActiveVideo (\<lambda>s. s) (\<lambda>r. r) full_update full_item)
       = tl (history full_item) @ [\<lparr>hs_subtitles = [50], hs_blurRegions = []\<rparr>]"
    "historyIndex (updateActiveVideo (\<lambda>s. s) (\<lambda>r. r) full_update full_item) = 49"
    "length (history (updateActiveVideo (\<lambda>s. s) (\<lambda>r. r) full_update full_item)) = 50"
    using full_item_kept cs by (simp_all add: full_item_def)
  from T big have
    "history (pushToHistory [51] [] full_item) =
       tl (take (historyIndex full_item + 1) (history full_item) @
           [\<lparr>hs_subtitles = [51], hs_blurRegions = []\<rparr>])"
    "historyIndex (pushToHistory [51] [] full_item) =
       length (take (historyIndex full_item + 1) (history full_item)) - 1"
    by blast+
  then have p: "history (pushToHistory [51] [] full_item)
       = tl (history full_item) @ [\<lparr>hs_subtitles = [51], hs_blurRegions = []\<rparr>]"
    "historyIndex (pushToHistory [51] [] full_item) = 49"
    using full_item_kept by (simp_all add: full_item_def)
  show ?thesis using full_item_ok full_update_effect big r u p by blast
qed






section \<open>Properties of snapshots in the store\<close>

lemma read_subs_cong:
  "(\<forall>a \<in> set refs. sub_objs st' a = sub_objs st a) \<Longrightarrow> read_subs st' refs = read_subs st refs"
  by (simp add: read_subs_def)

lemma read_regs_cong:
  "(\<forall>a \<in> set refs. reg_objs st' a = reg_objs st a) \<Longrightarrow> read_regs st' refs = read_regs st refs"
  by (simp add: read_regs_def)

lemmas ref_defs = updateActiveVideo_in_def updateActiveVideo_def ref_item_def ref_update_def
  newItem_def demo_store_def read_subs_def read_regs_def read_snapshot_def write_sub_def Let_def


lemma ref_cur: "historyIndex ref_item < length (history ref_item)"
  by (simp add: ref_item_def newItem_def)

lemma ref_eff:
  "takes_effect (\<lambda>refs. render_subs (read_subs demo_store refs))
     (\<lambda>refs. render_regs (read_regs demo_store refs)) ref_update ref_item"
  by (simp add: takes_effect_def committed_subs_def committed_regs_def ref_defs render_subs_def)


text \<open>
  C3, as the code has it: the snapshot a commit writes is a shallow copy. It holds the
  addresses of the committed subtitle and region arrays, which are also the item's
  current ones; read through the store at commit time it is the committed pair; it
  reads the same in every later store that agrees with the store of the commit on
  those addresses; and an assignment to the object at any of those addresses shows in
  the snapshot. \<^verbatim>\<open>pushToHistory\<close> stores the addresses it is given in the same way.
\<close>

theorem snapshot_is_shallow_copy:
  assumes cur: "historyIndex item < length (history item)"
      and eff: "takes_effect (\<lambda>refs. strS (read_subs st refs)) (\<lambda>refs. strR (read_regs st refs)) u item"
  shows "(let item' = updateActiveVideo_in strS strR st u item;
              snap = history item' ! historyIndex item'
          in historyIndex item' < length (history item') \<and>
             hs_subtitles snap = committed_subs u item \<and>
             hs_blurRegions snap = committed_regs u item \<and>
             hs_subtitles snap = subtitles item' \<and>
             hs_blurRegions snap = blurRegions item' \<and>
             read_snapshot st snap =
               (read_subs st (committed_subs u item), read_regs st (committed_regs u item)) \<and>
             (\<forall>st'. (\<forall>a \<in> set (committed_subs u item). sub_objs st' a = sub_objs st a) \<and>
                    (\<forall>a \<in> set (committed_regs u item). reg_objs st' a = reg_objs st a) \<longrightarrow>
                    read_snapshot st' snap = read_snapshot st snap) \<and>
             (\<forall>i v. i < length (subtitles item') \<longrightarrow>
                    fst (read_snapshot (write_sub (subtitles item' ! i) v st) snap) ! i = v) \<and>
             (\<forall>i v. i < length (blurRegions item') \<longrightarrow>
                    snd (read_snapshot (write_reg (blurRegions item' ! i) v st) snap) ! i = v)) \<and>
         history (pushToHistory subs regs item) ! historyIndex (pushToHistory subs regs item) =
           \<lparr>hs_subtitles = subs, hs_blurRegions = regs\<rparr>"
proof -
  define item' where "item' = updateActiveVideo_in strS strR st u item"
  define snap where "snap = history item' ! historyIndex item'"
  note e = update_effect[OF eff, folded updateActiveVideo_in_def item'_def]
  have h: "history item' ! historyIndex item' =
      \<lparr>hs_subtitles = committed_subs u item, hs_blurRegions = committed_regs u item\<rparr>"
    and il: "historyIndex item' < length (history item')"
    using e(1,2) by (simp_all add: Let_def)
  have s1: "hs_subtitles snap = committed_subs u item" and r1: "hs_blurRegions snap = committed_regs u item"
    using h by (simp_all add: snap_def)
  have s2: "hs_subtitles snap = subtitles item'" and r2: "hs_blurRegions snap = blurRegions item'"
    using s1 r1 e(3,4) by simp_all
  have v: "read_snapshot st snap =
               (read_subs st (committed_subs u item), read_regs st (committed_regs u item))"
    by (simp add: read_snapshot_def s1 r1)
  have stable: "\<forall>st'. (\<forall>a \<in> set (committed_subs u item). sub_objs st' a = sub_objs st a) \<and>
                    (\<forall>a \<in> set (committed_regs u item). reg_objs st' a = reg_objs st a) \<longrightarrow>
                    read_snapshot st' snap = read_snapshot st snap"
    by (simp add: read_snapshot_def s1 r1 read_subs_cong read_regs_cong)
  have ws: "\<forall>i v. i < length (subtitles item') \<longrightarrow>
                    fst (read_snapshot (write_sub (subtitles item' ! i) v st) snap) ! i = v"
    by (simp add: read_snapshot_def s2 read_subs_def write_sub_def)
  have wr: "\<forall>i v. i < length (blurRegions item') \<longrightarrow>
                    snd (read_snapshot (write_reg (blurRegions item' ! i) v st) snap) ! i = v"
    by (simp add: read_snapshot_def r2 read_regs_def write_reg_def)
  have p: "history (pushToHistory subs regs item) ! historyIndex (pushToHistory subs regs item) =
           \<lparr>hs_subtitles = subs, hs_blurRegions = regs\<rparr>"
    by (simp only: push_effect nth_append_length)
  show ?thesis
    unfolding Let_def item'_def[symmetric] snap_def[symmetric]
    by (intro conjI il s1 r1 s2 r2 v stable ws wr p)
qed


theorem snapshot_is_shallow_copy_witness:
  "historyIndex ref_item < length (history ref_item) \<and>
   takes_effect (\<lambda>refs. render_subs (read_subs demo_store refs))
     (\<lambda>refs. render_regs (read_regs demo_store refs)) ref_update ref_item \<and>
   hs_subtitles (history (updateActiveVideo_in render_subs render_regs demo_store ref_update ref_item)
       ! historyIndex (updateActiveVideo_in render_subs render_regs demo_store ref_update ref_item)) = [0] \<and>
   read_snapshot (write_sub 1 sub_b demo_store)
      (history (updateActiveVideo_in render_subs render_regs demo_store ref_update ref_item)
       ! historyIndex (updateActiveVideo_in render_subs render_regs demo_store ref_update ref_item))
     = ([sub_a], [])"
proof -
  have cs: "committed_subs ref_update ref_item = [0]" "committed_regs ref_update ref_item = []"
    by (simp_all add: committed_subs_def committed_regs_def ref_update_def ref_item_def newItem_def)
  note T = snapshot_is_shallow_copy[OF ref_cur ref_eff, of "[]" "[]", unfolded Let_def cs]
  have same: "(\<forall>a \<in> set [0::nat]. sub_objs (write_sub 1 sub_b demo_store) a = sub_objs demo_store a) \<and>
        (\<forall>a \<in> set ([]::nat list). reg_objs (write_sub 1 sub_b demo_store) a = reg_objs demo_store a)"
    by (simp add: write_sub_def)
  from T have 1: "hs_subtitles (history (updateActiveVideo_in render_subs render_regs demo_store ref_update ref_item)
       ! historyIndex (updateActiveVideo_in render_subs render_regs demo_store ref_update ref_item)) = [0]"
    by blast
  from T same have 2: "read_snapshot (write_sub 1 sub_b demo_store)
      (history (updateActiveVideo_in render_subs render_regs demo_store ref_update ref_item)
       ! historyIndex (updateActiveVideo_in render_subs render_regs demo_store ref_update ref_item))
     = (read_subs demo_store [0], read_regs demo_store [])"
    by metis
  have 3: "(read_subs demo_store [0], read_regs demo_store []) = ([sub_a], [])"
    by (simp add: read_subs_def read_regs_def demo_store_def)
  show ?thesis using ref_cur ref_eff 1 2 3 by simp
qed

text \<open>
  C3 as stated (a snapshot shares no object with the current arrays) fails: after
  committing the array that holds the object at address 0, the snapshot and the current
  subtitles share that address, and assigning to that object changes what the snapshot
  reads from \<open>sub_a\<close> to \<open>sub_b\<close>.
\<close>

theorem snapshot_deep_copy_counterexample:
  "(let item' = updateActiveVideo_in render_subs render_regs demo_store ref_update ref_item;
        snap = history item' ! historyIndex item'
    in set (hs_subtitles snap) \<inter> set (subtitles item') = {0} \<and>
       read_snapshot demo_store snap = ([sub_a], []) \<and>
       read_snapshot (write_sub (subtitles item' ! 0) sub_b demo_store) snap = ([sub_b], []) \<and>
       sub_a \<noteq> sub_b)"
  by (simp add: ref_defs render_subs_def render_regs_def sub_a_def sub_b_def)


section \<open>Properties of the active subtitle resolver\<close>

lemma find_first_index:
  "find P xs = Some x \<longleftrightarrow> (\<exists>i<length xs. xs ! i = x \<and> P x \<and> (\<forall>j<i. \<not> P (xs ! j)))"
  by (auto simp: find_Some_iff)

text \<open>
  C4: for every time \<open>t\<close> and every list of subtitles, in any order, the resolver returns
  nothing exactly when no entry has \<open>startTime \<le> t \<le> endTime\<close>, and returns \<open>s\<close>
  exactly when \<open>s\<close> is the entry at the least index whose closed interval contains
  \<open>t\<close>; the search of the export loop is the same function; and on the list
  \<open>[{0,2,"a"}, {2,4,"b"}]\<close> at \<open>t = 2\<close> it returns the entry with text \<open>"a"\<close>.
\<close>

theorem activeSub_first_match:
  "(activeSub subs t = None \<longleftrightarrow> (\<forall>i<length subs. \<not> (startTime (subs ! i) \<le> t \<and> t \<le> endTime (subs ! i)))) \<and>
   (\<forall>s. activeSub subs t = Some s \<longleftrightarrow>
      (\<exists>i<length subs. subs ! i = s \<and> startTime s \<le> t \<and> t \<le> endTime s \<and>
         (\<forall>j<i. \<not> (startTime (subs ! j) \<le> t \<and> t \<le> endTime (subs ! j))))) \<and>
   currentSub subs t = activeSub subs t \<and>
   activeSub [sub_a, sub_b] 2 = Some sub_a \<and> originalText sub_a = js ''a''"
proof -
  have n: "activeSub subs t = None \<longleftrightarrow> (\<forall>i<length subs. \<not> (startTime (subs ! i) \<le> t \<and> t \<le> endTime (subs ! i)))"
    unfolding activeSub_def find_None_iff by (metis in_set_conv_nth)
  have s: "\<forall>s. activeSub subs t = Some s \<longleftrightarrow>
      (\<exists>i<length subs. subs ! i = s \<and> startTime s \<le> t \<and> t \<le> endTime s \<and>
         (\<forall>j<i. \<not> (startTime (subs ! j) \<le> t \<and> t \<le> endTime (subs ! j))))"
    unfolding activeSub_def find_first_index by simp
  have c: "currentSub subs t = activeSub subs t"
    by (simp add: currentSub_def activeSub_def)
  have e: "activeSub [sub_a, sub_b] 2 = Some sub_a"
    by (simp add: activeSub_def sub_a_def)
  have a: "originalText sub_a = js ''a''" by (simp add: sub_a_def)
  show ?thesis using n s c e a by blast
qed

theorem activeSub_first_match_witness:
  "activeSub [sub_b, sub_a] 2 = Some sub_b \<and>
   (\<exists>i<length [sub_b, sub_a]. [sub_b, sub_a] ! i = sub_b \<and> startTime sub_b \<le> 2 \<and> 2 \<le> endTime sub_b) \<and>
   activeSub [sub_a, sub_b] 5 = None \<and> currentSub [sub_a, sub_b] 3 = Some sub_b"
proof -
  have 1: "activeSub [sub_b, sub_a] 2 = Some sub_b" by (simp add: activeSub_def sub_b_def)
  have 2: "\<exists>i<length [sub_b, sub_a]. [sub_b, sub_a] ! i = sub_b \<and> startTime sub_b \<le> 2 \<and> 2 \<le> endTime sub_b"
    using activeSub_first_match[of "[sub_b, sub_a]" 2] 1 by blast
  have 3: "activeSub [sub_a, sub_b] 5 = None" by (simp add: activeSub_def sub_a_def sub_b_def)
  have 4: "currentSub [sub_a, sub_b] 3 = Some sub_b"
    by (simp add: currentSub_def sub_a_def sub_b_def)
  show ?thesis using 1 2 3 4 by blast
qed


section \<open>Properties of the subtitle editor\<close>

text \<open>
  C10: \<^verbatim>\<open>addSub\<close> adds one entry whose start time is the current playback time and
  whose end time is the start time plus 2, keeps every entry that was there, and returns
  the whole list in ascending order of start time, whatever the order of the list
  before; entries with equal start times keep their relative order.
\<close>

theorem addSub_sorted:
  "sorted (map startTime (addSub now t prev)) \<and>
   mset (addSub now t prev) = mset prev + {#newSub now t#} \<and>
   length (addSub now t prev) = length prev + 1 \<and>
   startTime (newSub now t) = t \<and> endTime (newSub now t) = startTime (newSub now t) + 2 \<and>
   (\<forall>k. filter (\<lambda>s. startTime s = k) (addSub now t prev)
        = filter (\<lambda>s. startTime s = k) (prev @ [newSub now t]))"
proof -
  have 1: "sorted (map startTime (addSub now t prev))" by (simp add: addSub_def)
  have 2: "mset (addSub now t prev) = mset prev + {#newSub now t#}" by (simp add: addSub_def)
  have 3: "length (addSub now t prev) = length prev + 1" by (simp add: addSub_def)
  have 4: "startTime (newSub now t) = t \<and> endTime (newSub now t) = startTime (newSub now t) + 2"
    by (simp add: newSub_def)
  have 5: "\<forall>k. filter (\<lambda>s. startTime s = k) (addSub now t prev)
        = filter (\<lambda>s. startTime s = k) (prev @ [newSub now t])"
    unfolding addSub_def by (simp only: sort_key_stable) simp
  show ?thesis using 1 2 3 4 5 by blast
qed

theorem addSub_sorted_witness:
  "map startTime (addSub 1700000000000 1 [sub_b, sub_a]) = [0, 1, 2] \<and>
   sorted (map startTime (addSub 1700000000000 1 [sub_b, sub_a]))"
  using addSub_sorted[of 1700000000000 1 "[sub_b, sub_a]"]
  by (simp add: addSub_def newSub_def sub_a_def sub_b_def)

section \<open>Properties of the region editor\<close>

lemma mouseDown_ok: "editor_ok ed \<Longrightarrow> in_frame c \<Longrightarrow> editor_ok (handleMouseDown c b ed)"
  by (auto simp: editor_ok_def handleMouseDown_def Let_def split: option.splits)

lemma drawn_drag_ok:
  assumes "in_frame sp" "in_frame c"
  shows "drag_ok \<lparr>region_x = min (fst sp) (fst c), region_y = min (snd sp) (snd c),
             region_width = \<bar>fst c - fst sp\<bar>, region_height = \<bar>snd c - snd sp\<bar>\<rparr>"
  using assms by (auto simp: drag_ok_def in_frame_def)

lemma moved_region_ok:
  assumes "region_ok r"
  shows "region_ok (r\<lparr>region_x := max 0 (min (100 - region_width r) a),
                      region_y := max 0 (min (100 - region_height r) b)\<rparr>)"
  using assms by (auto simp: region_ok_def)

lemma resized_region_ok:
  assumes "region_ok r" "in_frame c"
  shows "region_ok (r\<lparr>region_width := max 1 (fst c - region_x r),
                      region_height := max 1 (snd c - region_y r)\<rparr>)"
proof -
  define w h where "w = max 1 (fst c - region_x r)" and "h = max 1 (snd c - region_y r)"
  have lo: "1 \<le> w" "1 \<le> h" by (simp_all add: w_def h_def)
  have hi: "w \<le> 100" "h \<le> 100"
    using assms by (auto simp: w_def h_def region_ok_def in_frame_def)
  have "region_ok (r\<lparr>region_width := w, region_height := h\<rparr>)"
    using assms(1) lo hi by (simp add: region_ok_def)
  then show ?thesis by (simp add: w_def h_def)
qed

lemma list_all_update: "list_all P xs \<Longrightarrow> P y \<Longrightarrow> list_all P (xs[i := y])"
  by (induction xs arbitrary: i) (auto split: nat.splits)

lemma mouseMove_ok:
  assumes ok: "editor_ok ed" and c: "in_frame c"
  shows "\<exists>ed'. handleMouseMove c ed = Some ed' \<and> editor_ok ed'"
proof (cases "isDrawing ed \<and> startPos ed \<noteq> None")
  case True
  then obtain sp where sp: "startPos ed = Some sp" and d: "isDrawing ed" by auto
  have "in_frame sp" using ok sp by (simp add: editor_ok_def)
  from drawn_drag_ok[OF this c] show ?thesis
    using ok sp d by (auto simp: handleMouseMove_def editor_ok_def split: option.splits)
next
  case False
  note nd = this
  show ?thesis
  proof (cases "editingIdx ed \<noteq> None \<and> editAction ed \<noteq> None")
    case False
    then show ?thesis using ok nd by (auto simp: handleMouseMove_def)
  next
    case True
    then obtain i a where ei: "editingIdx ed = Some i" and ea: "editAction ed = Some a" by auto
    have i: "i < length (regions ed)" using ok ei by (simp add: editor_ok_def)
    then have ri: "region_ok (regions ed ! i)"
      using ok by (simp add: editor_ok_def list_all_length)
    have keep: "\<And>r'. region_ok r' \<Longrightarrow> editor_ok (ed\<lparr>regions := (regions ed)[i := r']\<rparr>)"
      using ok ei i by (auto simp: editor_ok_def list_all_update split: option.splits)
    define r' where "r' =
       (if a = Move \<and> dragOffset ed \<noteq> None then
          (regions ed ! i)\<lparr>region_x :=
              max 0 (min (100 - region_width (regions ed ! i)) (fst c - fst (the (dragOffset ed)))),
            region_y :=
              max 0 (min (100 - region_height (regions ed ! i)) (snd c - snd (the (dragOffset ed))))\<rparr>
        else if a = Resize then
          (regions ed ! i)\<lparr>region_width := max 1 (fst c - region_x (regions ed ! i)),
                 region_height := max 1 (snd c - region_y (regions ed ! i))\<rparr>
        else regions ed ! i)"
    have "region_ok r'"
      unfolding r'_def using moved_region_ok[OF ri] resized_region_ok[OF ri c] ri by simp
    from keep[OF this] have "editor_ok (ed\<lparr>regions := (regions ed)[i := r']\<rparr>)" .
    moreover have "handleMouseMove c ed = Some (ed\<lparr>regions := (regions ed)[i := r']\<rparr>)"
      using nd ei ea i unfolding handleMouseMove_def r'_def Let_def by auto
    ultimately show ?thesis by blast
  qed
qed

lemma mouseUp_ok: "editor_ok ed \<Longrightarrow> editor_ok (handleMouseUp ed)"
  by (auto simp: editor_ok_def handleMouseUp_def Let_def region_ok_def drag_ok_def
      split: option.splits bool.splits)

lemma regionMouseDown_ok:
  assumes "editor_ok ed" "in_frame c" "idx < length (regions ed)"
  shows "\<exists>ed'. handleRegionMouseDown idx c ed = Some ed' \<and> editor_ok ed'"
  using assms mouseDown_ok[of ed c True]
  by (auto simp: handleRegionMouseDown_def Let_def editor_ok_def)

lemma resizeMouseDown_ok:
  "editor_ok ed \<Longrightarrow> idx < length (regions ed) \<Longrightarrow> editor_ok (handleResizeMouseDown idx ed)"
  by (auto simp: editor_ok_def handleResizeMouseDown_def)

lemma removeRegion_set:
  "set (map snd (filter (\<lambda>(i, r). i \<noteq> idx) (enumerate n xs))) \<subseteq> set xs"
  by (induction xs arbitrary: n) auto

lemma removeRegion_ok: "editor_ok ed \<Longrightarrow> editor_ok (removeRegion idx ed)"
  using removeRegion_set[of idx 0 "regions ed"]
  by (auto simp: editor_ok_def removeRegion_def list_all_iff)

lemma handle_ok:
  assumes "editor_ok ed" "admissible ev ed"
  shows "\<exists>ed'. handle ev ed = Some ed' \<and> editor_ok ed'"
proof (cases ev)
  case (MouseDown c b)
  then show ?thesis using assms by (simp add: mouseDown_ok)
next
  case (MouseMove c)
  then show ?thesis using assms by (simp add: mouseMove_ok)
next
  case MouseUp
  then show ?thesis using assms by (simp add: mouseUp_ok)
next
  case (RegionMouseDown i c)
  then show ?thesis using assms by (simp add: regionMouseDown_ok)
next
  case (ResizeMouseDown i)
  then show ?thesis using assms by (simp add: resizeMouseDown_ok)
next
  case (RemoveRegion i)
  then show ?thesis using assms by (simp add: removeRegion_ok)
next
  case StartDrawing
  then show ?thesis using assms by (auto simp: editor_ok_def split: option.splits)
qed

lemma gestures_ok:
  "editor_ok ed \<Longrightarrow> all_admissible evs ed \<Longrightarrow> \<exists>ed'. gestures evs ed = Some ed' \<and> editor_ok ed'"
proof (induction evs arbitrary: ed)
  case Nil
  then show ?case by simp
next
  case (Cons ev evs)
  from Cons.prems have a: "admissible ev ed" by simp
  from handle_ok[OF Cons.prems(1) a] obtain ed1 where
    h: "handle ev ed = Some ed1" and ok1: "editor_ok ed1" by blast
  from Cons.prems(2) h have "all_admissible evs ed1" by simp
  from Cons.IH[OF ok1 this] show ?case using h by simp
qed

lemma initial_editor_ok: "editor_ok initial_editor"
  by (simp add: editor_ok_def initial_editor_def)

lemma mouseUp_draw:
  assumes "isDrawing ed" "currentDrag ed = Some d"
  shows "regions (handleMouseUp ed) =
           (if region_width d > 0.5 \<and> region_height d > 0.5 then regions ed @ [d] else regions ed)"
    and "\<not> isDrawing (handleMouseUp ed)"
  using assms by (simp_all add: handleMouseUp_def Let_def)

lemma mouseMove_edit:
  assumes "\<not> (isDrawing ed \<and> startPos ed \<noteq> None)"
      and "editingIdx ed = Some i" and "editAction ed = Some a" and "i < length (regions ed)"
  shows "handleMouseMove c ed = Some (ed\<lparr>regions := (regions ed)[i :=
       (if a = Move \<and> dragOffset ed \<noteq> None then
          (regions ed ! i)\<lparr>region_x :=
              max 0 (min (100 - region_width (regions ed ! i)) (fst c - fst (the (dragOffset ed)))),
            region_y :=
              max 0 (min (100 - region_height (regions ed ! i)) (snd c - snd (the (dragOffset ed))))\<rparr>
        else if a = Resize then
          (regions ed ! i)\<lparr>region_width := max 1 (fst c - region_x (regions ed ! i)),
                 region_height := max 1 (snd c - region_y (regions ed ! i))\<rparr>
        else regions ed ! i)]\<rparr>)"
  using assms unfolding handleMouseMove_def Let_def by auto

lemma move_clamps:
  assumes nd: "\<not> (isDrawing ed \<and> startPos ed \<noteq> None)"
      and ei: "editingIdx ed = Some i" and ea: "editAction ed = Some Move"
      and off: "dragOffset ed = Some off" and i: "i < length (regions ed)"
      and w: "region_width (regions ed ! i) \<le> 100" and h: "region_height (regions ed ! i) \<le> 100"
  shows "\<exists>ed'. handleMouseMove c ed = Some ed' \<and> length (regions ed') = length (regions ed) \<and>
           0 \<le> region_x (regions ed' ! i) \<and>
           region_x (regions ed' ! i) + region_width (regions ed' ! i) \<le> 100 \<and>
           0 \<le> region_y (regions ed' ! i) \<and>
           region_y (regions ed' ! i) + region_height (regions ed' ! i) \<le> 100 \<and>
           region_width (regions ed' ! i) = region_width (regions ed ! i) \<and>
           region_height (regions ed' ! i) = region_height (regions ed ! i) \<and>
           (\<forall>j<length (regions ed). j \<noteq> i \<longrightarrow> regions ed' ! j = regions ed ! j)"
  using mouseMove_edit[OF nd ei ea i, of c] off i w h by auto

lemma resize_floors:
  assumes nd: "\<not> (isDrawing ed \<and> startPos ed \<noteq> None)"
      and ei: "editingIdx ed = Some i" and ea: "editAction ed = Some Resize"
      and i: "i < length (regions ed)"
  shows "\<exists>ed'. handleMouseMove c ed = Some ed' \<and> length (regions ed') = length (regions ed) \<and>
           1 \<le> region_width (regions ed' ! i) \<and> 1 \<le> region_height (regions ed' ! i) \<and>
           region_width (regions ed' ! i) = max 1 (fst c - region_x (regions ed ! i)) \<and>
           region_height (regions ed' ! i) = max 1 (snd c - region_y (regions ed ! i)) \<and>
           region_x (regions ed' ! i) = region_x (regions ed ! i) \<and>
           region_y (regions ed' ! i) = region_y (regions ed ! i) \<and>
           (\<forall>j<length (regions ed). j \<noteq> i \<longrightarrow> regions ed' ! j = regions ed ! j)"
  using mouseMove_edit[OF nd ei ea i, of c] i by auto


lemmas editor_defs = handleMouseDown_def handleMouseMove_def handleMouseUp_def
  handleRegionMouseDown_def handleResizeMouseDown_def removeRegion_def initial_editor_def
  in_frame_def Let_def

lemma demo_run: "gestures demo_gestures initial_editor = Some demo_result"
  by (simp add: demo_gestures_def demo_result_def editor_defs)

lemma demo_admissible: "all_admissible demo_gestures initial_editor"
  by (simp add: demo_gestures_def editor_defs)


text \<open>
  C5: the empty editor satisfies the invariant, and from any state that satisfies it,
  every sequence of draw, move, resize and remove events whose pointer positions lie in
  the frame runs through and leaves every region with \<open>x\<close>, \<open>y\<close> in \<open>[0, 100]\<close> and
  width and height in \<open>(0.5, 100]\<close>. Releasing the pointer after drawing appends the
  rectangle only when both its width and its height exceed \<open>0.5\<close>, and otherwise leaves
  the list as it is. A move step keeps the size and places the origin so that the whole
  rectangle lies within \<open>[0, 100]\<close> on both axes. A resize step keeps the origin and sets
  width and height to the pointer's distance from it, at least 1.
\<close>

theorem regions_stay_in_frame:
  assumes ok: "editor_ok ed" and adm: "all_admissible evs ed"
  shows "editor_ok initial_editor \<and>
    (\<exists>ed'. gestures evs ed = Some ed' \<and>
       (\<forall>r \<in> set (regions ed').
          0 \<le> region_x r \<and> region_x r \<le> 100 \<and> 0 \<le> region_y r \<and> region_y r \<le> 100 \<and>
          0.5 < region_width r \<and> region_width r \<le> 100 \<and>
          0.5 < region_height r \<and> region_height r \<le> 100)) \<and>
    (\<forall>d. isDrawing ed \<and> currentDrag ed = Some d \<longrightarrow>
       regions (handleMouseUp ed) =
         (if region_width d > 0.5 \<and> region_height d > 0.5 then regions ed @ [d] else regions ed)) \<and>
    (\<forall>i off c. \<not> (isDrawing ed \<and> startPos ed \<noteq> None) \<and> editingIdx ed = Some i \<and>
        editAction ed = Some Move \<and> dragOffset ed = Some off \<longrightarrow>
       (\<exists>ed'. handleMouseMove c ed = Some ed' \<and> length (regions ed') = length (regions ed) \<and>
           0 \<le> region_x (regions ed' ! i) \<and>
           region_x (regions ed' ! i) + region_width (regions ed' ! i) \<le> 100 \<and>
           0 \<le> region_y (regions ed' ! i) \<and>
           region_y (regions ed' ! i) + region_height (regions ed' ! i) \<le> 100 \<and>
           region_width (regions ed' ! i) = region_width (regions ed ! i) \<and>
           region_height (regions ed' ! i) = region_height (regions ed ! i) \<and>
           (\<forall>j<length (regions ed). j \<noteq> i \<longrightarrow> regions ed' ! j = regions ed ! j))) \<and>
    (\<forall>i c. \<not> (isDrawing ed \<and> startPos ed \<noteq> None) \<and> editingIdx ed = Some i \<and>
        editAction ed = Some Resize \<longrightarrow>
       (\<exists>ed'. handleMouseMove c ed = Some ed' \<and> length (regions ed') = length (regions ed) \<and>
           1 \<le> region_width (regions ed' ! i) \<and> 1 \<le> region_height (regions ed' ! i) \<and>
           region_width (regions ed' ! i) = max 1 (fst c - region_x (regions ed ! i)) \<and>
           region_height (regions ed' ! i) = max 1 (snd c - region_y (regions ed ! i)) \<and>
           region_x (regions ed' ! i) = region_x (regions ed ! i) \<and>
           region_y (regions ed' ! i) = region_y (regions ed ! i) \<and>
           (\<forall>j<length (regions ed). j \<noteq> i \<longrightarrow> regions ed' ! j = regions ed ! j)))"
proof -
  have idx: "\<And>i. editingIdx ed = Some i \<Longrightarrow> i < length (regions ed)"
    using ok by (simp add: editor_ok_def)
  have rok: "\<And>i. i < length (regions ed) \<Longrightarrow> region_ok (regions ed ! i)"
    using ok by (simp add: editor_ok_def list_all_length)
  from gestures_ok[OF ok adm] obtain ed' where
    g: "gestures evs ed = Some ed'" and ok': "editor_ok ed'" by blast
  have b: "\<forall>r \<in> set (regions ed').
          0 \<le> region_x r \<and> region_x r \<le> 100 \<and> 0 \<le> region_y r \<and> region_y r \<le> 100 \<and>
          0.5 < region_width r \<and> region_width r \<le> 100 \<and>
          0.5 < region_height r \<and> region_height r \<le> 100"
    using ok' by (simp add: editor_ok_def list_all_iff region_ok_def)
  have c: "\<forall>d. isDrawing ed \<and> currentDrag ed = Some d \<longrightarrow>
       regions (handleMouseUp ed) =
         (if region_width d > 0.5 \<and> region_height d > 0.5 then regions ed @ [d] else regions ed)"
    using mouseUp_draw(1) by blast
  have m: "\<And>i off c. \<not> (isDrawing ed \<and> startPos ed \<noteq> None) \<and> editingIdx ed = Some i \<and>
        editAction ed = Some Move \<and> dragOffset ed = Some off \<Longrightarrow>
       (\<exists>ed'. handleMouseMove c ed = Some ed' \<and> length (regions ed') = length (regions ed) \<and>
           0 \<le> region_x (regions ed' ! i) \<and>
           region_x (regions ed' ! i) + region_width (regions ed' ! i) \<le> 100 \<and>
           0 \<le> region_y (regions ed' ! i) \<and>
           region_y (regions ed' ! i) + region_height (regions ed' ! i) \<le> 100 \<and>
           region_width (regions ed' ! i) = region_width (regions ed ! i) \<and>
           region_height (regions ed' ! i) = region_height (regions ed ! i) \<and>
           (\<forall>j<length (regions ed). j \<noteq> i \<longrightarrow> regions ed' ! j = regions ed ! j))"
  proof -
    fix i off c
    assume h: "\<not> (isDrawing ed \<and> startPos ed \<noteq> None) \<and> editingIdx ed = Some i \<and>
        editAction ed = Some Move \<and> dragOffset ed = Some off"
    then have i: "i < length (regions ed)" using idx by blast
    from rok[OF i] have w: "region_width (regions ed ! i) \<le> 100"
      and hh: "region_height (regions ed ! i) \<le> 100" by (simp_all add: region_ok_def)
    from h have 1: "\<not> (isDrawing ed \<and> startPos ed \<noteq> None)" and 2: "editingIdx ed = Some i"
      and 3: "editAction ed = Some Move" and 4: "dragOffset ed = Some off" by blast+
    show "\<exists>ed'. handleMouseMove c ed = Some ed' \<and> length (regions ed') = length (regions ed) \<and>
           0 \<le> region_x (regions ed' ! i) \<and>
           region_x (regions ed' ! i) + region_width (regions ed' ! i) \<le> 100 \<and>
           0 \<le> region_y (regions ed' ! i) \<and>
           region_y (regions ed' ! i) + region_height (regions ed' ! i) \<le> 100 \<and>
           region_width (regions ed' ! i) = region_width (regions ed ! i) \<and>
           region_height (regions ed' ! i) = region_height (regions ed ! i) \<and>
           (\<forall>j<length (regions ed). j \<noteq> i \<longrightarrow> regions ed' ! j = regions ed ! j)"
      by (rule move_clamps[OF 1 2 3 4 i w hh])
  qed
  have r: "\<And>i c. \<not> (isDrawing ed \<and> startPos ed \<noteq> None) \<and> editingIdx ed = Some i \<and>
        editAction ed = Some Resize \<Longrightarrow>
       (\<exists>ed'. handleMouseMove c ed = Some ed' \<and> length (regions ed') = length (regions ed) \<and>
           1 \<le> region_width (regions ed' ! i) \<and> 1 \<le> region_height (regions ed' ! i) \<and>
           region_width (regions ed' ! i) = max 1 (fst c - region_x (regions ed ! i)) \<and>
           region_height (regions ed' ! i) = max 1 (snd c - region_y (regions ed ! i)) \<and>
           region_x (regions ed' ! i) = region_x (regions ed ! i) \<and>
           region_y (regions ed' ! i) = region_y (regions ed ! i) \<and>
           (\<forall>j<length (regions ed). j \<noteq> i \<longrightarrow> regions ed' ! j = regions ed ! j))"
  proof -
    fix i c
    assume h: "\<not> (isDrawing ed \<and> startPos ed \<noteq> None) \<and> editingIdx ed = Some i \<and>
        editAction ed = Some Resize"
    then have i: "i < length (regions ed)" using idx by blast
    from h have 1: "\<not> (isDrawing ed \<and> startPos ed \<noteq> None)" and 2: "editingIdx ed = Some i"
      and 3: "editAction ed = Some Resize" by blast+
    show "\<exists>ed'. handleMouseMove c ed = Some ed' \<and> length (regions ed') = length (regions ed) \<and>
           1 \<le> region_width (regions ed' ! i) \<and> 1 \<le> region_height (regions ed' ! i) \<and>
           region_width (regions ed' ! i) = max 1 (fst c - region_x (regions ed ! i)) \<and>
           region_height (regions ed' ! i) = max 1 (snd c - region_y (regions ed ! i)) \<and>
           region_x (regions ed' ! i) = region_x (regions ed ! i) \<and>
           region_y (regions ed' ! i) = region_y (regions ed ! i) \<and>
           (\<forall>j<length (regions ed). j \<noteq> i \<longrightarrow> regions ed' ! j = regions ed ! j)"
      by (rule resize_floors[OF 1 2 3 i])
  qed
  show ?thesis
    apply (intro conjI)
        apply (rule initial_editor_ok)
       apply (rule exI[of _ ed'], rule conjI[OF g b])
      apply (rule c)
     apply (intro allI impI, erule m)
    apply (intro allI impI, erule r)
    done
qed

theorem regions_stay_in_frame_witness:
  "editor_ok initial_editor \<and> all_admissible demo_gestures initial_editor \<and>
   gestures demo_gestures initial_editor = Some demo_result \<and>
   regions demo_result = [\<lparr>region_x = 70, region_y = 85, region_width = 1, region_height = 1\<rparr>] \<and>
   list_all region_ok (regions demo_result)"
proof -
  from regions_stay_in_frame[OF initial_editor_ok demo_admissible]
  have "\<forall>r \<in> set (regions demo_result). region_ok r"
    unfolding demo_run region_ok_def by simp
  then show ?thesis
    using initial_editor_ok demo_admissible demo_run
    by (simp add: list_all_iff demo_result_def)
qed

section \<open>Properties of the retry helper\<close>

lemma retry_loop_skip:
  assumes "\<forall>j. i \<le> j \<and> j < k \<longrightarrow> retryable_at fn j" and "i \<le> k" and "k \<le> m"
  shows "retry_loop fn rnd m i le sl =
         retry_loop fn rnd m k
           (if i = k then le else (case fn (k - 1) of Inl e \<Rightarrow> Some e | Inr v \<Rightarrow> None))
           (sl @ map (backoff rnd) [i..<k])"
  using assms
proof (induction "k - i" arbitrary: i le sl)
  case 0
  then show ?case by simp
next
  case (Suc d)
  then have lt: "i < k" and im: "i < m" by auto
  from Suc.prems(1) lt have "retryable_at fn i" by auto
  then obtain e where e: "fn i = Inl e" and cls: "isRateLimit e \<or> isServerError e"
    by (auto simp: retryable_at_def split: sum.splits)
  have step: "retry_loop fn rnd m i le sl = retry_loop fn rnd m (i + 1) (Some e) (sl @ [backoff rnd i])"
    using im e cls by (subst retry_loop.simps) (auto simp: backoff_def)
  have d: "d = k - (i + 1)" using Suc.hyps(2) by simp
  have rest: "\<forall>j. i + 1 \<le> j \<and> j < k \<longrightarrow> retryable_at fn j" using Suc.prems(1) by auto
  have ik: "i + 1 \<le> k" using lt by simp
  have last: "(if i + 1 = k then Some e else (case fn (k - 1) of Inl e \<Rightarrow> Some e | Inr v \<Rightarrow> None))
            = (case fn (k - 1) of Inl e \<Rightarrow> Some e | Inr v \<Rightarrow> None)"
    using e by auto
  have ups: "[i..<k] = i # [i + 1..<k]" using lt by (simp add: upt_conv_Cons)
  show ?case
    using Suc.hyps(1)[OF d rest ik Suc.prems(3), of "Some e" "sl @ [backoff rnd i]"] step last ups lt
    by simp
qed

lemma retry_loop_calls: "i \<le> m \<Longrightarrow> calls (retry_loop fn rnd m i le sl) \<le> m"
proof (induction fn rnd m i le sl rule: retry_loop.induct)
  case (1 fn random maxRetries i lastError slept)
  show ?case
  proof (cases "i < maxRetries")
    case False
    then show ?thesis using "1.prems" by (subst retry_loop.simps) simp
  next
    case True
    show ?thesis
    proof (cases "fn i")
      case (Inr v)
      then show ?thesis using True by (subst retry_loop.simps) simp
    next
      case (Inl e)
      show ?thesis
      proof (cases "isRateLimit e \<or> isServerError e")
        case False
        then show ?thesis using True Inl by (subst retry_loop.simps) auto
      next
        case c: True
        have "calls (retry_loop fn random maxRetries (i + 1) (Some e)
                 (slept @ [2 ^ i * 1000 + random i * 1000])) \<le> maxRetries"
          using "1.IH"[OF True Inl c refl] True by simp
        then show ?thesis using True Inl c by (subst retry_loop.simps) (auto simp: Let_def)
      qed
    qed
  qed
qed

lemma withRetry_prefix:
  assumes "\<forall>j<k. retryable_at fn j" and "k \<le> m"
  shows "withRetry fn rnd m =
         retry_loop fn rnd m k (if k = 0 then None else thrown_at fn (k - 1)) (map (backoff rnd) [0..<k])"
proof -
  have "\<forall>j. 0 \<le> j \<and> j < k \<longrightarrow> retryable_at fn j" using assms(1) by simp
  from retry_loop_skip[OF this _ assms(2), of rnd None "[]"]
  have "retry_loop fn rnd m 0 None [] =
        retry_loop fn rnd m k
          (if 0 = k then None else (case fn (k - 1) of Inl e \<Rightarrow> Some e | Inr v \<Rightarrow> None))
          ([] @ map (backoff rnd) [0..<k])" by simp
  moreover have "(if 0 = k then None else (case fn (k - 1) of Inl e \<Rightarrow> Some e | Inr v \<Rightarrow> None))
      = (if k = 0 then None else thrown_at fn (k - 1))"
    by (cases "k = 0") (simp_all add: thrown_at_def)
  ultimately show ?thesis by (simp add: withRetry_def)
qed


lemma flaky_retryable: "\<forall>j<3. retryable_at flaky j"
proof (intro allI impI)
  fix j :: nat assume "j < 3"
  then consider "j = 0" | "j = 1" | "j = 2" by linarith
  then show "retryable_at flaky j"
    by cases (simp_all add: retryable_at_def flaky_def quota_error_def isRateLimit_def
        isServerError_def js_def)
qed

lemma bad_request_class: "\<not> isRateLimit bad_request_error \<and> \<not> isServerError bad_request_error"
  by (simp add: bad_request_error_def isRateLimit_def isServerError_def js_def)


text \<open>
  C8: \<^verbatim>\<open>withRetry\<close> calls \<open>fn\<close> at most \<open>maxRetries\<close> times. When every one of the
  \<open>maxRetries\<close> calls rejects with a rate-limit or server error, each failure is followed
  by a sleep of \<open>2^i\<close> seconds plus a random part below one second, and the error of the
  last call is thrown. When a call rejects with an error of neither class, after any
  number of retried failures, that error is thrown at once and \<open>fn\<close> is not called
  again; when a call resolves, its value is returned. With \<open>maxRetries = 0\<close> nothing is
  called and \<^verbatim>\<open>undefined\<close> is thrown.
\<close>

theorem withRetry_policy:
  "calls (withRetry fn rnd m) \<le> m \<and>
   (m = 0 \<longrightarrow> withRetry fn rnd m = \<lparr>outcome = Inl None, calls = 0, sleeps = []\<rparr>) \<and>
   (0 < m \<and> (\<forall>j<m. retryable_at fn j) \<longrightarrow>
      (\<exists>e. fn (m - 1) = Inl e \<and> (isRateLimit e \<or> isServerError e) \<and>
           withRetry fn rnd m =
             \<lparr>outcome = Inl (Some e), calls = m, sleeps = map (backoff rnd) [0..<m]\<rparr>)) \<and>
   (\<forall>k e. k < m \<and> (\<forall>j<k. retryable_at fn j) \<and> fn k = Inl e \<and>
        \<not> isRateLimit e \<and> \<not> isServerError e \<longrightarrow>
      withRetry fn rnd m =
        \<lparr>outcome = Inl (Some e), calls = k + 1, sleeps = map (backoff rnd) [0..<k]\<rparr>) \<and>
   (\<forall>k v. k < m \<and> (\<forall>j<k. retryable_at fn j) \<and> fn k = Inr v \<longrightarrow>
      withRetry fn rnd m =
        \<lparr>outcome = Inr v, calls = k + 1, sleeps = map (backoff rnd) [0..<k]\<rparr>) \<and>
   (\<forall>i. 0 \<le> rnd i \<and> rnd i < 1 \<longrightarrow>
      2 ^ i * 1000 \<le> backoff rnd i \<and> backoff rnd i < 2 ^ i * 1000 + 1000)"
proof -
  have a: "calls (withRetry fn rnd m) \<le> m"
    unfolding withRetry_def by (rule retry_loop_calls) simp
  have z: "m = 0 \<longrightarrow> withRetry fn rnd m = \<lparr>outcome = Inl None, calls = 0, sleeps = []\<rparr>"
    unfolding withRetry_def by (subst retry_loop.simps) simp
  have ex: "0 < m \<and> (\<forall>j<m. retryable_at fn j) \<longrightarrow>
      (\<exists>e. fn (m - 1) = Inl e \<and> (isRateLimit e \<or> isServerError e) \<and>
           withRetry fn rnd m =
             \<lparr>outcome = Inl (Some e), calls = m, sleeps = map (backoff rnd) [0..<m]\<rparr>)"
  proof
    assume h: "0 < m \<and> (\<forall>j<m. retryable_at fn j)"
    then have "retryable_at fn (m - 1)" by simp
    then obtain e where e: "fn (m - 1) = Inl e" and cls: "isRateLimit e \<or> isServerError e"
      by (auto simp: retryable_at_def split: sum.splits)
    from h have all: "\<forall>j<m. retryable_at fn j" and pos: "m \<noteq> 0" by auto
    have "withRetry fn rnd m = retry_loop fn rnd m m (Some e) (map (backoff rnd) [0..<m])"
      using withRetry_prefix[OF all, of m rnd] pos e by (simp add: thrown_at_def)
    also have "\<dots> = \<lparr>outcome = Inl (Some e), calls = m, sleeps = map (backoff rnd) [0..<m]\<rparr>"
      by (subst retry_loop.simps) simp
    finally show "\<exists>e. fn (m - 1) = Inl e \<and> (isRateLimit e \<or> isServerError e) \<and>
           withRetry fn rnd m =
             \<lparr>outcome = Inl (Some e), calls = m, sleeps = map (backoff rnd) [0..<m]\<rparr>"
      using e cls by blast
  qed
  have ff: "\<forall>k e. k < m \<and> (\<forall>j<k. retryable_at fn j) \<and> fn k = Inl e \<and>
        \<not> isRateLimit e \<and> \<not> isServerError e \<longrightarrow>
      withRetry fn rnd m =
        \<lparr>outcome = Inl (Some e), calls = k + 1, sleeps = map (backoff rnd) [0..<k]\<rparr>"
  proof (intro allI impI)
    fix k e
    assume h: "k < m \<and> (\<forall>j<k. retryable_at fn j) \<and> fn k = Inl e \<and>
        \<not> isRateLimit e \<and> \<not> isServerError e"
    then have all: "\<forall>j<k. retryable_at fn j" and km: "k \<le> m" by auto
    have "withRetry fn rnd m =
         retry_loop fn rnd m k (if k = 0 then None else thrown_at fn (k - 1)) (map (backoff rnd) [0..<k])"
      by (rule withRetry_prefix[OF all km])
    also have "\<dots> = \<lparr>outcome = Inl (Some e), calls = k + 1, sleeps = map (backoff rnd) [0..<k]\<rparr>"
      using h by (subst retry_loop.simps) simp
    finally show "withRetry fn rnd m =
        \<lparr>outcome = Inl (Some e), calls = k + 1, sleeps = map (backoff rnd) [0..<k]\<rparr>" .
  qed
  have ok: "\<forall>k v. k < m \<and> (\<forall>j<k. retryable_at fn j) \<and> fn k = Inr v \<longrightarrow>
      withRetry fn rnd m =
        \<lparr>outcome = Inr v, calls = k + 1, sleeps = map (backoff rnd) [0..<k]\<rparr>"
  proof (intro allI impI)
    fix k v
    assume h: "k < m \<and> (\<forall>j<k. retryable_at fn j) \<and> fn k = Inr v"
    then have all: "\<forall>j<k. retryable_at fn j" and km: "k \<le> m" by auto
    have "withRetry fn rnd m =
         retry_loop fn rnd m k (if k = 0 then None else thrown_at fn (k - 1)) (map (backoff rnd) [0..<k])"
      by (rule withRetry_prefix[OF all km])
    also have "\<dots> = \<lparr>outcome = Inr v, calls = k + 1, sleeps = map (backoff rnd) [0..<k]\<rparr>"
      using h by (subst retry_loop.simps) simp
    finally show "withRetry fn rnd m =
        \<lparr>outcome = Inr v, calls = k + 1, sleeps = map (backoff rnd) [0..<k]\<rparr>" .
  qed
  have j: "\<forall>i. 0 \<le> rnd i \<and> rnd i < 1 \<longrightarrow>
      2 ^ i * 1000 \<le> backoff rnd i \<and> backoff rnd i < 2 ^ i * 1000 + 1000"
    by (simp add: backoff_def)
  show ?thesis by (intro conjI a z ex ff ok j)
qed

theorem withRetry_policy_witness:
  "withRetry flaky half 3 = \<lparr>outcome = Inl (Some quota_error), calls = 3, sleeps = [1500, 2500, 4500]\<rparr> \<and>
   withRetry bad_request half 3 = \<lparr>outcome = Inl (Some bad_request_error), calls = 1, sleeps = []\<rparr> \<and>
   \<not> isRateLimit bad_request_error \<and> \<not> isServerError bad_request_error \<and>
   retryable_at flaky 0 \<and> retryable_at flaky 1 \<and> retryable_at flaky 2"
proof -
  have "\<exists>e. flaky (3 - 1) = Inl e \<and> (isRateLimit e \<or> isServerError e) \<and>
           withRetry flaky half 3 =
             \<lparr>outcome = Inl (Some e), calls = 3, sleeps = map (backoff half) [0..<3]\<rparr>"
    using withRetry_policy[of flaky half 3, THEN conjunct2, THEN conjunct2, THEN conjunct1]
      flaky_retryable by simp
  then have 1: "withRetry flaky half 3 =
      \<lparr>outcome = Inl (Some quota_error), calls = 3, sleeps = map (backoff half) [0..<3]\<rparr>"
    by (auto simp: flaky_def)
  have u: "[0..<3] = [0, 1, 2]" by (simp add: upt_rec)
  have 2: "map (backoff half) [0..<3] = [1500, 2500, 4500]"
    unfolding u by (simp add: backoff_def half_def)
  have 3: "withRetry bad_request half 3 =
      \<lparr>outcome = Inl (Some bad_request_error), calls = 0 + 1, sleeps = map (backoff half) [0..<0]\<rparr>"
    using withRetry_policy[of bad_request half 3, THEN conjunct2, THEN conjunct2, THEN conjunct2,
        THEN conjunct1, THEN spec, THEN spec, of 0 bad_request_error] bad_request_class
    by (simp add: bad_request_def)
  show ?thesis using 1 2 3 bad_request_class flaky_retryable by simp
qed

section \<open>Properties of the audio cache\<close>

lemma audio_effect_idle:
  assumes "active = None \<or> no_audioUrl (the active)"
  shows "audioCache (audio_effect ok active st) = audioCache st"
    and "next_audio (audio_effect ok active st) = next_audio st"
  using assms by (auto simp: audio_effect_def pause_def split: option.splits)

lemma audio_effect_same:
  assumes "active = Some s" "audioUrl s = Some url" "url \<noteq> []"
      and "activeAudio st = Some a" "src (elements st a) = url"
  shows "audio_effect ok active st = st"
  using assms by (simp add: audio_effect_def no_audioUrl_def)

lemma audio_effect_switch:
  assumes s: "active = Some s" and u: "audioUrl s = Some url" and ne: "url \<noteq> []"
      and other: "\<not> (case activeAudio st of Some a \<Rightarrow> src (elements st a) = url | None \<Rightarrow> False)"
  shows "audioCache (audio_effect ok active st) =
           (case audioCache st url of Some a \<Rightarrow> audioCache st
            | None \<Rightarrow> (audioCache st)(url \<mapsto> next_audio st))"
    and "next_audio (audio_effect ok active st) =
           (case audioCache st url of Some a \<Rightarrow> next_audio st | None \<Rightarrow> next_audio st + 1)"
    and "activeAudio (audio_effect ok active st) =
           Some (case audioCache st url of Some a \<Rightarrow> a | None \<Rightarrow> next_audio st)"
    and "src (elements (audio_effect ok active st)
               (case audioCache st url of Some a \<Rightarrow> a | None \<Rightarrow> next_audio st)) =
           (case audioCache st url of Some a \<Rightarrow> src (elements st a) | None \<Rightarrow> url)"
    and "audio_currentTime (elements (audio_effect ok active st)
               (case audioCache st url of Some a \<Rightarrow> a | None \<Rightarrow> next_audio st)) = 0"
  using assms
  by (auto simp: audio_effect_def no_audioUrl_def pause_def Let_def split: option.splits)


lemma initial_audio_ok: "cache_ok initial_audio"
  by (simp add: cache_ok_def initial_audio_def)

lemma pause_ok: "cache_ok st \<Longrightarrow> cache_ok (pause a st)"
  by (auto simp: cache_ok_def pause_def)

lemma pause_fields:
  "audioCache (pause a st) = audioCache st" "next_audio (pause a st) = next_audio st"
  "activeAudio (pause a st) = activeAudio st" "src (elements (pause a st) b) = src (elements st b)"
  by (simp_all add: pause_def)

lemma audio_effect_ok:
  assumes ok: "cache_ok st"
  shows "cache_ok (audio_effect play_ok active st)"
proof (cases "active = None \<or> no_audioUrl (the active)")
  case True
  then show ?thesis using ok
    by (auto simp: audio_effect_def cache_ok_def pause_def split: option.splits)
next
  case False
  then obtain s url where s: "active = Some s" and u: "audioUrl s = Some url" and ne: "url \<noteq> []"
    by (auto simp: no_audioUrl_def)
  show ?thesis
  proof (cases "case activeAudio st of Some a \<Rightarrow> src (elements st a) = url | None \<Rightarrow> False")
    case True
    then obtain a where "activeAudio st = Some a" "src (elements st a) = url"
      by (auto split: option.splits)
    then show ?thesis using audio_effect_same[OF s u ne] ok by simp
  next
    case other: False
    define st1 where "st1 = (case activeAudio st of Some a \<Rightarrow> pause a st | None \<Rightarrow> st)"
    have ok1: "cache_ok st1" using ok pause_ok by (auto simp: st1_def split: option.splits)
    have eff: "audio_effect play_ok active st =
       (let audio = (case audioCache st1 url of Some a \<Rightarrow> a | None \<Rightarrow> next_audio st1);
            st2 = (case audioCache st1 url of
                     Some a \<Rightarrow> st1
                   | None \<Rightarrow> st1\<lparr>elements := (elements st1)
                                   (audio := \<lparr>src = url, audio_currentTime = 0, paused = True\<rparr>),
                                 next_audio := next_audio st1 + 1,
                                 audioCache := (audioCache st1)(url \<mapsto> audio)\<rparr>)
        in st2\<lparr>elements := (elements st2)
                   (audio := (elements st2 audio)\<lparr>audio_currentTime := 0, paused := \<not> play_ok\<rparr>),
               activeAudio := Some audio\<rparr>)"
      using s u ne other
      by (auto simp: audio_effect_def no_audioUrl_def st1_def Let_def split: option.splits)
    have lt: "\<And>k a. audioCache st1 k = Some a \<Longrightarrow> a < next_audio st1"
      and sr: "\<And>k a. audioCache st1 k = Some a \<Longrightarrow> src (elements st1 a) = k"
      using ok1 by (auto simp: cache_ok_def)
    show ?thesis
    proof (cases "audioCache st1 url")
      case None
      have fresh: "\<And>k a. audioCache st1 k = Some a \<Longrightarrow> a \<noteq> next_audio st1"
        using lt by fastforce
      have lt': "\<And>k a. audioCache st1 k = Some a \<Longrightarrow> a < Suc (next_audio st1)"
        using lt by fastforce
      show ?thesis unfolding eff cache_ok_def using None fresh lt' sr
        by (auto simp: Let_def)
    next
      case (Some a)
      then show ?thesis unfolding eff cache_ok_def using lt sr
        by (auto simp: Let_def)
    qed
  qed
qed

lemmas audio_defs = audio_effect_def initial_audio_def pause_def no_audioUrl_def
  voiced_1_def voiced_2_def voiced_3_def js_def Let_def


lemma two_cached_ok: "cache_ok two_cached"
  unfolding two_cached_def by (intro audio_effect_ok initial_audio_ok)

lemma two_cached_facts:
  "audioCache two_cached (js ''data:audio/wav;base64,AAAA'') = Some 0"
  "audioCache two_cached (js ''data:audio/wav;base64,BBBB'') = Some 1"
  "next_audio two_cached = 2" "activeAudio two_cached = Some 1"
  by (simp_all add: two_cached_def audio_defs)


text \<open>
  C9, as the code has it: the cache is keyed by the \<^verbatim>\<open>audioUrl\<close> of the active
  subtitle, not by its id. The invariant (every cached element was built from its key)
  holds initially and is kept by every update. An update never replaces an entry. With
  no active subtitle, or one without \<^verbatim>\<open>audioUrl\<close>, the cache is not touched and
  nothing is created. With an active subtitle of url \<open>u\<close>, only the key \<open>u\<close> can change;
  afterwards the cache maps \<open>u\<close> to the playing element, whose \<^verbatim>\<open>src\<close> is \<open>u\<close>; an element
  cached under \<open>u\<close> before is that element and no element is created, and otherwise
  exactly one element is created.
\<close>

theorem audio_cache_keyed_by_url:
  assumes ok: "cache_ok st"
  shows "cache_ok initial_audio \<and> cache_ok (audio_effect play_ok active st) \<and>
    (\<forall>k a. audioCache st k = Some a \<longrightarrow> audioCache (audio_effect play_ok active st) k = Some a) \<and>
    (active = None \<or> no_audioUrl (the active) \<longrightarrow>
       audioCache (audio_effect play_ok active st) = audioCache st \<and>
       next_audio (audio_effect play_ok active st) = next_audio st) \<and>
    (\<forall>s url. active = Some s \<and> audioUrl s = Some url \<and> url \<noteq> [] \<longrightarrow>
       (\<forall>k. k \<noteq> url \<longrightarrow> audioCache (audio_effect play_ok active st) k = audioCache st k) \<and>
       (\<exists>h. audioCache (audio_effect play_ok active st) url = Some h \<and>
            activeAudio (audio_effect play_ok active st) = Some h \<and>
            src (elements (audio_effect play_ok active st) h) = url \<and>
            (\<forall>a. audioCache st url = Some a \<longrightarrow>
                 h = a \<and> next_audio (audio_effect play_ok active st) = next_audio st) \<and>
            (audioCache st url = None \<longrightarrow>
                 h = next_audio st \<and>
                 next_audio (audio_effect play_ok active st) = next_audio st + 1)))"
proof -
  define st' where "st' = audio_effect play_ok active st"
  have ok': "cache_ok st'" unfolding st'_def by (rule audio_effect_ok[OF ok])
  have idle: "active = None \<or> no_audioUrl (the active) \<longrightarrow>
       audioCache st' = audioCache st \<and> next_audio st' = next_audio st"
    unfolding st'_def using audio_effect_idle by blast
  have voiced: "\<And>s url. active = Some s \<and> audioUrl s = Some url \<and> url \<noteq> [] \<Longrightarrow>
       (\<forall>k. k \<noteq> url \<longrightarrow> audioCache st' k = audioCache st k) \<and>
       (\<forall>a. audioCache st url = Some a \<longrightarrow> audioCache st' url = Some a) \<and>
       (\<exists>h. audioCache st' url = Some h \<and> activeAudio st' = Some h \<and>
            src (elements st' h) = url \<and>
            (\<forall>a. audioCache st url = Some a \<longrightarrow> h = a \<and> next_audio st' = next_audio st) \<and>
            (audioCache st url = None \<longrightarrow> h = next_audio st \<and> next_audio st' = next_audio st + 1))"
  proof -
    fix s url
    assume h: "active = Some s \<and> audioUrl s = Some url \<and> url \<noteq> []"
    then have s: "active = Some s" and u: "audioUrl s = Some url" and ne: "url \<noteq> []" by auto
    show "(\<forall>k. k \<noteq> url \<longrightarrow> audioCache st' k = audioCache st k) \<and>
       (\<forall>a. audioCache st url = Some a \<longrightarrow> audioCache st' url = Some a) \<and>
       (\<exists>h. audioCache st' url = Some h \<and> activeAudio st' = Some h \<and>
            src (elements st' h) = url \<and>
            (\<forall>a. audioCache st url = Some a \<longrightarrow> h = a \<and> next_audio st' = next_audio st) \<and>
            (audioCache st url = None \<longrightarrow> h = next_audio st \<and> next_audio st' = next_audio st + 1))"
    proof (cases "case activeAudio st of Some a \<Rightarrow> src (elements st a) = url | None \<Rightarrow> False")
      case True
      then obtain a where a: "activeAudio st = Some a" and sa: "src (elements st a) = url"
        by (auto split: option.splits)
      have same: "st' = st" unfolding st'_def by (rule audio_effect_same[OF s u ne a sa])
      have "audioCache st url = Some a" using ok a sa by (auto simp: cache_ok_def)
      then show ?thesis using same a sa by auto
    next
      case False
      note sw = audio_effect_switch[OF s u ne False, of play_ok, folded st'_def]
      show ?thesis
      proof (cases "audioCache st url")
        case None
        then show ?thesis using sw by auto
      next
        case (Some a)
        then have "src (elements st a) = url" using ok by (auto simp: cache_ok_def)
        then show ?thesis using sw Some by auto
      qed
    qed
  qed
  have keep: "\<forall>k a. audioCache st k = Some a \<longrightarrow> audioCache st' k = Some a"
  proof (cases "active = None \<or> no_audioUrl (the active)")
    case True
    then show ?thesis using idle by simp
  next
    case False
    then obtain s url where "active = Some s \<and> audioUrl s = Some url \<and> url \<noteq> []"
      by (auto simp: no_audioUrl_def)
    from voiced[OF this] show ?thesis by metis
  qed
  have v2: "\<forall>s url. active = Some s \<and> audioUrl s = Some url \<and> url \<noteq> [] \<longrightarrow>
       (\<forall>k. k \<noteq> url \<longrightarrow> audioCache st' k = audioCache st k) \<and>
       (\<exists>h. audioCache st' url = Some h \<and> activeAudio st' = Some h \<and>
            src (elements st' h) = url \<and>
            (\<forall>a. audioCache st url = Some a \<longrightarrow> h = a \<and> next_audio st' = next_audio st) \<and>
            (audioCache st url = None \<longrightarrow> h = next_audio st \<and> next_audio st' = next_audio st + 1))"
    using voiced by blast
  show ?thesis
    unfolding st'_def[symmetric]
    by (intro conjI initial_audio_ok ok' keep idle v2)
qed


theorem audio_cache_keyed_by_url_witness:
  "cache_ok two_cached \<and>
   audioUrl voiced_3 = Some (js ''data:audio/wav;base64,AAAA'') \<and>
   sub_id voiced_3 \<noteq> sub_id voiced_1 \<and>
   audioCache two_cached (js ''data:audio/wav;base64,AAAA'') = Some 0 \<and>
   audioCache (audio_effect True (Some voiced_3) two_cached) (js ''data:audio/wav;base64,AAAA'') = Some 0 \<and>
   activeAudio (audio_effect True (Some voiced_3) two_cached) = Some 0 \<and>
   next_audio (audio_effect True (Some voiced_3) two_cached) = next_audio two_cached"
proof -
  have u: "audioUrl voiced_3 = Some (js ''data:audio/wav;base64,AAAA'')"
    and n: "js ''data:audio/wav;base64,AAAA'' \<noteq> []"
    and i: "sub_id voiced_3 \<noteq> sub_id voiced_1"
    by (simp_all add: voiced_3_def voiced_1_def js_def)
  from audio_cache_keyed_by_url[OF two_cached_ok, of True "Some voiced_3"] u n
  obtain h where
    "audioCache (audio_effect True (Some voiced_3) two_cached) (js ''data:audio/wav;base64,AAAA'') = Some h"
    "activeAudio (audio_effect True (Some voiced_3) two_cached) = Some h"
    "\<forall>a. audioCache two_cached (js ''data:audio/wav;base64,AAAA'') = Some a \<longrightarrow>
        h = a \<and> next_audio (audio_effect True (Some voiced_3) two_cached) = next_audio two_cached"
    by blast
  then show ?thesis using two_cached_ok two_cached_facts(1) u i by simp
qed

text \<open>
  C9 as stated (the cache is keyed by the subtitle id) fails: after the update for a
  subtitle, the cache has no entry under its id and one under its \<^verbatim>\<open>audioUrl\<close>; and a
  second subtitle with the same id and another url gets a second element.
\<close>

theorem audio_cache_id_counterexample:
  "audioCache (audio_effect True (Some voiced_1) initial_audio) (sub_id voiced_1) = None \<and>
   audioCache (audio_effect True (Some voiced_1) initial_audio) (the (audioUrl voiced_1)) = Some 0 \<and>
   sub_id voiced_2 = sub_id voiced_1 \<and>
   next_audio (audio_effect True (Some voiced_1) initial_audio) = 1 \<and>
   next_audio (audio_effect True (Some voiced_2)
     (audio_effect True (Some voiced_1) initial_audio)) = 2"
  by (simp add: audio_defs)


section \<open>Properties of the subtitle interchange format\<close>




















lemma js_Number2: "a \<le> 9 \<Longrightarrow> b \<le> 9 \<Longrightarrow> js_Number [48 + a, 48 + b] = Some (real (10 * a + b))"
  by (simp add: js_Number_def is_digit_def)

lemma js_Number3:
  "a \<le> 9 \<Longrightarrow> b \<le> 9 \<Longrightarrow> c \<le> 9 \<Longrightarrow>
   js_Number [48 + a, 48 + b, 48 + c] = Some (real (100 * a + 10 * b + c))"
  by (simp add: js_Number_def is_digit_def)

lemma split_stamp:
  assumes "a \<le> 9" "b \<le> 9" "c \<le> 9" "d \<le> 9" "e \<le> 9" "f \<le> 9"
  shows "split_on 44 [48 + a, 48 + b, 58, 48 + c, 48 + d, 58, 48 + e, 48 + f, 44, 48 + g, 48 + h, 48 + i]
     = [[48 + a, 48 + b, 58, 48 + c, 48 + d, 58, 48 + e, 48 + f], [48 + g, 48 + h, 48 + i]]"
    and "split_on 58 [48 + a, 48 + b, 58, 48 + c, 48 + d, 58, 48 + e, 48 + f]
     = [[48 + a, 48 + b], [48 + c, 48 + d], [48 + e, 48 + f]]"
  using assms by simp_all

lemma timestampToSeconds_digits:
  assumes "a \<le> 9" "b \<le> 9" "c \<le> 9" "d \<le> 9" "e \<le> 9" "f \<le> 9" "g \<le> 9" "h \<le> 9" "i \<le> 9"
  shows "timestampToSeconds fl
           [48 + a, 48 + b, 58, 48 + c, 48 + d, 58, 48 + e, 48 + f, 44, 48 + g, 48 + h, 48 + i]
         = Some (fl (fl (fl (fl (real (10 * a + b) * 3600) + fl (real (10 * c + d) * 60))
                         + real (10 * e + f))
                     + fl (real (100 * g + 10 * h + i) / 1000)))"
  unfolding timestampToSeconds_def split_stamp[OF assms(1-6)]
  using assms by (simp add: js_Number2 js_Number3 del: of_nat_add of_nat_mult)




























lemma srt_ok_text: "srt_ok e \<Longrightarrow> emitted_text e \<noteq> []"
  by (auto simp: srt_ok_def)


























text \<open>
  \<^verbatim>\<open>parseSRT\<close> never builds an entry with a NaN time: the groups of a match are strings
  that \<^verbatim>\<open>timestampToSeconds\<close> reads.
\<close>

lemma matches_prefix_Cons:
  "matches_prefix (p # ps) s \<longleftrightarrow> (\<exists>c cs. s = c # cs \<and> fits p c \<and> matches_prefix ps cs)"
  by (cases s) auto

lemma matches_prefix_split:
  "matches_prefix (ps @ qs) s \<Longrightarrow> matches_prefix ps s \<and> matches_prefix qs (drop (length ps) s)"
proof (induction ps s rule: matches_prefix.induct)
  case (1 s)
  then show ?case by simp
next
  case (2 p ps)
  then show ?case by simp
next
  case (3 p ps c cs)
  then show ?case by simp
qed

lemma digit_form: "is_digit c \<Longrightarrow> c - 48 \<le> 9 \<and> 48 + (c - 48) = c"
  by (auto simp: is_digit_def)

lemma stamp_capture:
  assumes "matches_prefix stamp_pattern s"
  shows "\<exists>v. timestampToSeconds fl (take 12 s) = Some v"
proof -
  from assms obtain c1 c2 c3 c4 c5 c6 c7 c8 c9 rest where
    s: "s = c1 # c2 # 58 # c3 # c4 # 58 # c5 # c6 # 44 # c7 # c8 # c9 # rest"
    and d: "is_digit c1" "is_digit c2" "is_digit c3" "is_digit c4" "is_digit c5" "is_digit c6"
      "is_digit c7" "is_digit c8" "is_digit c9"
    unfolding stamp_pattern_def matches_prefix_Cons fits.simps by blast
  note f = d[THEN digit_form]
  have t: "take 12 s = [c1, c2, 58, c3, c4, 58, c5, c6, 44, c7, c8, c9]"
    unfolding s by simp
  have "timestampToSeconds fl
           [48 + (c1 - 48), 48 + (c2 - 48), 58, 48 + (c3 - 48), 48 + (c4 - 48), 58,
            48 + (c5 - 48), 48 + (c6 - 48), 44, 48 + (c7 - 48), 48 + (c8 - 48), 48 + (c9 - 48)]
        \<noteq> None"
    by (subst timestampToSeconds_digits) (simp_all add: f)
  then show ?thesis unfolding t by (simp only: f) blast
qed

lemma time_match_captures:
  "time_match s = Some (g1, g2) \<Longrightarrow>
   \<exists>v1 v2. timestampToSeconds fl g1 = Some v1 \<and> timestampToSeconds fl g2 = Some v2"
proof (induction s)
  case Nil
  then show ?case by simp
next
  case (Cons c cs)
  show ?case
  proof (cases "matches_prefix time_pattern (c # cs)")
    case True
    then have g: "g1 = take 12 (c # cs)" "g2 = take 12 (drop 17 (c # cs))"
      using Cons.prems by simp_all
    have l1: "length stamp_pattern = 12" by (simp add: stamp_pattern_def)
    from True have m1: "matches_prefix stamp_pattern (c # cs)"
      and r: "matches_prefix (map Lit (js '' --> '') @ stamp_pattern) (drop 12 (c # cs))"
      unfolding time_pattern_def using matches_prefix_split[of stamp_pattern _ "c # cs"] l1 by auto
    have "matches_prefix stamp_pattern (drop (length (map Lit (js '' --> ''))) (drop 12 (c # cs)))"
      using matches_prefix_split[OF r] by blast
    then have m2: "matches_prefix stamp_pattern (drop 17 (c # cs))" by (simp add: js_def)
    show ?thesis unfolding g using stamp_capture[OF m1] stamp_capture[OF m2] by blast
  next
    case False
    then show ?thesis using Cons by simp
  qed
qed

lemma parse_block_total: "\<exists>entries. parse_block fl now index block = Some entries"
proof (cases "time_match (split_on 10 block ! 1)")
  case None
  then show ?thesis by (simp add: parse_block_def Let_def)
next
  case (Some g)
  obtain g1 g2 where g: "g = (g1, g2)" by (cases g)
  from time_match_captures[OF Some[unfolded g], of fl] obtain v1 v2 where
    "timestampToSeconds fl g1 = Some v1" "timestampToSeconds fl g2 = Some v2" by blast
  then show ?thesis using Some g by (simp add: parse_block_def Let_def)
qed

lemma parse_blocks_total: "\<exists>entries. parse_blocks fl now index blocks = Some entries"
proof (induction blocks arbitrary: index)
  case Nil
  then show ?case by simp
next
  case (Cons b bs)
  from parse_block_total[of fl now index b] obtain es where "parse_block fl now index b = Some es" by blast
  moreover from Cons[of "index + 1"] obtain fs where "parse_blocks fl now (index + 1) bs = Some fs" by blast
  ultimately show ?case by simp
qed

lemma parseSRT_total: "\<exists>entries. parseSRT fl now content = Some entries"
  unfolding parseSRT_def by (rule parse_blocks_total)




end
